theory Spec2Isabelle
  imports Main "HOL-Library.Sublist"
begin

section \<open>Hera Browser: persistence gateway and tab coordinator\<close>

text \<open>
  A shallow embedding of \<^verbatim>\<open>database.ts\<close>, of the type guards and of the tab, download
  and protocol handlers of \<^verbatim>\<open>index.ts\<close>. A JavaScript string is a \<open>string\<close>; a character
  stands for a UTF-16 code unit below 256. \<open>undefined\<close> and SQL \<open>NULL\<close> are \<open>None\<close>.
  Values the program reads from its host (the clock, fresh UUIDs, what the download item
  reports) are arguments of the functions that read them.
\<close>

subsection \<open>Strings\<close>

definition startsWith :: "string \<Rightarrow> string \<Rightarrow> bool" where
  "startsWith s p = (take (length p) s = p)"

text \<open>\<open>s.includes(p)\<close>: \<open>p\<close> occurs in \<open>s\<close>.\<close>

fun includes_str :: "string \<Rightarrow> string \<Rightarrow> bool" where
  "includes_str [] p = (p = [])"
| "includes_str (c # s) p = (startsWith (c # s) p \<or> includes_str s p)"

subsection \<open>The store\<close>

text \<open>
  One record per table of \<open>initDatabase\<close>, rows in rowid order. Columns that no modelled
  statement reads (\<open>created_at\<close>, \<open>updated_at\<close>) are left out. \<open>history_seq\<close> is the
  AUTOINCREMENT counter of \<open>history\<close>.

  SQLite's INTEGER is a 64-bit integer; the model's \<open>int\<close> is unbounded, and no modelled
  value comes near the bound.

  The driver can fail: \<open>fault_after = Some k\<close> says that \<open>k\<close> more statements execute and
  every later one raises (a full disk, a lost file); \<open>None\<close> says that none ever fails.
\<close>

datatype error = DatabaseNotInitialized | SqliteError string | InvalidArgument string

record history_row =
  history_id :: int
  history_url :: string
  history_title :: string
  history_timestamp :: int
  history_visit_count :: "int option"
  history_favicon :: "string option"

record tab_row =
  tab_id :: string
  tab_url :: string
  tab_title :: string
  tab_favicon :: "string option"
  tab_position :: int
  tab_active :: int

record bookmark_row =
  bookmark_id :: string
  bookmark_url :: "string option"
  bookmark_title :: string
  bookmark_favicon :: "string option"
  bookmark_folder_id :: "string option"
  bookmark_position :: int

record download_row =
  download_id :: string
  download_filename :: string
  download_savePath :: string
  download_totalBytes :: int
  download_receivedBytes :: int
  download_state :: string
  download_timestamp :: int

record database =
  history :: "history_row list"
  history_seq :: int
  open_tabs :: "tab_row list"
  bookmarks :: "bookmark_row list"
  settings :: "(string \<times> string) list"
  downloads :: "download_row list"
  fault_after :: "nat option"

text \<open>The state \<open>initDatabase\<close> leaves on a new file: every table empty.\<close>

definition initDatabase :: "nat option \<Rightarrow> database option" where
  "initDatabase faults = Some \<lparr>history = [], history_seq = 0, open_tabs = [], bookmarks = [],
     settings = [], downloads = [], fault_after = faults\<rparr>"

text \<open>Executing one prepared statement (\<open>run\<close>, \<open>get\<close>, \<open>all\<close>): it raises when the driver's
  budget is spent, and uses one unit of it otherwise.\<close>

definition statement :: "database \<Rightarrow> (error + unit) \<times> database" where
  "statement d =
     (case fault_after d of
        None \<Rightarrow> (Inr (), d)
      | Some 0 \<Rightarrow> (Inl (SqliteError ''disk I/O error''), d)
      | Some (Suc k) \<Rightarrow> (Inr (), d\<lparr>fault_after := Some k\<rparr>))"

text \<open>\<^verbatim>\<open>if (!db) throw new Error('Database not initialized')\<close>, the first line of every
  exported function.\<close>

definition with_db ::
  "database option \<Rightarrow> (database \<Rightarrow> (error + 'a) \<times> database) \<Rightarrow> (error + 'a) \<times> database option" where
  "with_db db f =
     (case db of
        None \<Rightarrow> (Inl DatabaseNotInitialized, None)
      | Some d \<Rightarrow> (case f d of (r, d') \<Rightarrow> (r, Some d')))"

subsection \<open>History\<close>

text \<open>The rowid an AUTOINCREMENT insert receives: one more than every rowid the table
  holds or has held.\<close>

definition next_history_id :: "database \<Rightarrow> int" where
  "next_history_id d = fold max (map history_id (history d)) (history_seq d) + 1"

text \<open>The UPDATE of \<open>addHistoryEntry\<close>, on the row it applies to.\<close>

definition history_visit :: "string \<Rightarrow> string option \<Rightarrow> int \<Rightarrow> history_row \<Rightarrow> history_row" where
  "history_visit title favicon now r =
     r\<lparr>history_visit_count := map_option (\<lambda>c. c + 1) (history_visit_count r),
       history_timestamp := now,
       history_title := title,
       history_favicon := (case favicon of None \<Rightarrow> history_favicon r | Some f \<Rightarrow> Some f)\<rparr>"

text \<open>\<open>addHistoryEntry(url, title, favicon)\<close> at clock reading \<open>now\<close>. Whatever the statements
  raise is caught and logged, so the call returns normally.\<close>

definition addHistoryEntry ::
  "string \<Rightarrow> string \<Rightarrow> string option \<Rightarrow> int \<Rightarrow> database option \<Rightarrow> (error + unit) \<times> database option" where
  "addHistoryEntry url title favicon now db = with_db db (\<lambda>d.
     if startsWith url ''hera://'' then (Inr (), d)
     else
       (case statement d of
          (Inl e, d1) \<Rightarrow> (Inr (), d1)
        | (Inr u, d1) \<Rightarrow>
            (case find (\<lambda>r. history_url r = url) (history d1) of
               Some existing \<Rightarrow>
                 (case statement d1 of
                    (Inl e, d2) \<Rightarrow> (Inr (), d2)
                  | (Inr u, d2) \<Rightarrow>
                      (Inr (), d2\<lparr>history :=
                         map (\<lambda>r. if history_id r = history_id existing
                                   then history_visit title favicon now r else r)
                           (history d2)\<rparr>))
             | None \<Rightarrow>
                 (case statement d1 of
                    (Inl e, d2) \<Rightarrow> (Inr (), d2)
                  | (Inr u, d2) \<Rightarrow>
                      (Inr (), d2\<lparr>history := history d2 @
                         [\<lparr>history_id = next_history_id d2, history_url = url,
                           history_title = title, history_timestamp = now,
                           history_visit_count = Some 1, history_favicon = favicon\<rparr>],
                         history_seq := next_history_id d2\<rparr>)))))"

text \<open>A run of visits, each \<open>(url, title, favicon, now)\<close>, in order.\<close>

fun addHistoryEntries ::
  "(string \<times> string \<times> string option \<times> int) list \<Rightarrow> database option \<Rightarrow> database option" where
  "addHistoryEntries [] db = db"
| "addHistoryEntries ((url, title, favicon, now) # vs) db =
     addHistoryEntries vs (snd (addHistoryEntry url title favicon now db))"

text \<open>The rows of the table for one address.\<close>

definition history_for :: "string \<Rightarrow> database \<Rightarrow> history_row list" where
  "history_for a d = filter (\<lambda>r. history_url r = a) (history d)"

definition visits_to :: "string \<Rightarrow> (string \<times> string \<times> string option \<times> int) list \<Rightarrow>
    (string \<times> string \<times> string option \<times> int) list" where
  "visits_to a vs = filter (\<lambda>v. fst v = a) vs"

text \<open>The store after a visit to an external address when no statement fails: the two
  branches of \<open>addHistoryEntry\<close>.\<close>

definition history_step :: "string \<Rightarrow> string \<Rightarrow> string option \<Rightarrow> int \<Rightarrow> database \<Rightarrow> database" where
  "history_step url title favicon now d =
     (case find (\<lambda>r. history_url r = url) (history d) of
        Some existing \<Rightarrow>
          d\<lparr>history := map (\<lambda>r. if history_id r = history_id existing
                                   then history_visit title favicon now r else r) (history d)\<rparr>
      | None \<Rightarrow>
          d\<lparr>history := history d @
                 [\<lparr>history_id = next_history_id d, history_url = url,
                   history_title = title, history_timestamp = now,
                   history_visit_count = Some 1, history_favicon = favicon\<rparr>],
             history_seq := next_history_id d\<rparr>)"

text \<open>\<open>x || undefined\<close> and \<open>x || null\<close> on an optional string: the empty string is falsy.\<close>

definition or_null :: "string option \<Rightarrow> string option" where
  "or_null x = (case x of None \<Rightarrow> None | Some s \<Rightarrow> if s = [] then None else Some s)"

text \<open>\<open>x || ''\<close>.\<close>

definition or_empty :: "string option \<Rightarrow> string" where
  "or_empty x = (case x of None \<Rightarrow> [] | Some s \<Rightarrow> s)"

record history_entry =
  entry_id :: int
  entry_url :: string
  entry_title :: string
  entry_timestamp :: int
  entry_visit_count :: "int option"
  entry_favicon :: "string option"

definition row_to_entry :: "history_row \<Rightarrow> history_entry" where
  "row_to_entry row = \<lparr>entry_id = history_id row, entry_url = history_url row,
     entry_title = history_title row, entry_timestamp = history_timestamp row,
     entry_visit_count = history_visit_count row,
     entry_favicon = or_null (history_favicon row)\<rparr>"

text \<open>\<open>isHistoryEntry\<close> on an entry built from a row. \<open>url\<close>, \<open>title\<close>, \<open>timestamp\<close> and
  \<open>id\<close> come from NOT NULL columns and pass their \<open>typeof\<close> tests. \<open>visit_count\<close> is a
  nullable column: a NULL is the value \<open>null\<close>, which is not \<open>undefined\<close> and not a
  number, so the guard rejects the entry.\<close>

definition isHistoryEntry :: "history_entry \<Rightarrow> bool" where
  "isHistoryEntry h = (entry_visit_count h \<noteq> None)"

definition validateHistoryEntries :: "history_entry list \<Rightarrow> history_entry list" where
  "validateHistoryEntries data = filter isHistoryEntry data"

text \<open>\<open>ORDER BY timestamp DESC LIMIT 1000\<close>. SQLite leaves the order of rows with equal
  keys open; the model keeps them in rowid order.\<close>

definition getHistory :: "database option \<Rightarrow> (error + history_entry list) \<times> database option" where
  "getHistory db = with_db db (\<lambda>d.
     case statement d of
       (Inl e, d1) \<Rightarrow> (Inr [], d1)
     | (Inr u, d1) \<Rightarrow>
         (Inr (validateHistoryEntries (map row_to_entry
            (take 1000 (sort_key (\<lambda>r. - history_timestamp r) (history d1))))), d1))"

definition clearHistory :: "database option \<Rightarrow> (error + unit) \<times> database option" where
  "clearHistory db = with_db db (\<lambda>d.
     case statement d of
       (Inl e, d1) \<Rightarrow> (Inl e, d1)
     | (Inr u, d1) \<Rightarrow> (Inr (), d1\<lparr>history := []\<rparr>))"

subsection \<open>Bookmarks\<close>

text \<open>\<open>addBookmark(id, url, title, favicon, folderId)\<close>. The count is taken over
  \<open>folder_id IS (folderId || null)\<close>; the row is inserted with \<open>folderId\<close> as given. \<open>id\<close> is
  the primary key. The result is the inserted row. The error is rethrown.\<close>

definition addBookmark ::
  "string \<Rightarrow> string \<Rightarrow> string \<Rightarrow> string option \<Rightarrow> string option \<Rightarrow> database option \<Rightarrow>
     (error + bookmark_row) \<times> database option" where
  "addBookmark ident url title favicon folderId db = with_db db (\<lambda>d.
     case statement d of
       (Inl e, d1) \<Rightarrow> (Inl e, d1)
     | (Inr u, d1) \<Rightarrow>
         (let count = int (length (filter (\<lambda>r. bookmark_folder_id r = or_null folderId) (bookmarks d1)));
              row = \<lparr>bookmark_id = ident, bookmark_url = Some url, bookmark_title = title,
                     bookmark_favicon = favicon, bookmark_folder_id = folderId,
                     bookmark_position = count\<rparr>
          in case statement d1 of
               (Inl e, d2) \<Rightarrow> (Inl e, d2)
             | (Inr u, d2) \<Rightarrow>
                 if ident \<in> set (map bookmark_id (bookmarks d2))
                 then (Inl (SqliteError ''UNIQUE constraint failed: bookmarks.id''), d2)
                 else (Inr row, d2\<lparr>bookmarks := bookmarks d2 @ [row]\<rparr>)))"

text \<open>\<open>removeBookmark(id)\<close>: whether a row was deleted; \<open>false\<close> when the statement raises.\<close>

definition removeBookmark :: "string \<Rightarrow> database option \<Rightarrow> (error + bool) \<times> database option" where
  "removeBookmark ident db = with_db db (\<lambda>d.
     case statement d of
       (Inl e, d1) \<Rightarrow> (Inr False, d1)
     | (Inr u, d1) \<Rightarrow>
         (Inr (ident \<in> set (map bookmark_id (bookmarks d1))),
          d1\<lparr>bookmarks := filter (\<lambda>r. bookmark_id r \<noteq> ident) (bookmarks d1)\<rparr>))"

subsection \<open>Saved tabs\<close>

record tab_state =
  ts_id :: string
  ts_url :: string
  ts_title :: string
  ts_favicon :: "string option"
  ts_position :: int
  ts_active :: bool

text \<open>\<open>insert.run(tab.id, tab.url, tab.title, tab.favicon, tab.position, tab.active ? 1 : 0)\<close>.\<close>

definition insert_tab :: "tab_state \<Rightarrow> database \<Rightarrow> (error + unit) \<times> database" where
  "insert_tab tab d =
     (case statement d of
        (Inl e, d1) \<Rightarrow> (Inl e, d1)
      | (Inr u, d1) \<Rightarrow>
          if ts_id tab \<in> set (map tab_id (open_tabs d1))
          then (Inl (SqliteError ''UNIQUE constraint failed: open_tabs.id''), d1)
          else (Inr (), d1\<lparr>open_tabs := open_tabs d1 @
                  [\<lparr>tab_id = ts_id tab, tab_url = ts_url tab, tab_title = ts_title tab,
                    tab_favicon = ts_favicon tab, tab_position = ts_position tab,
                    tab_active = (if ts_active tab then 1 else 0)\<rparr>]\<rparr>))"

text \<open>The loop \<open>for (const tab of tabs) insert.run(...)\<close>: it stops at the first error.\<close>

fun insert_tabs :: "tab_state list \<Rightarrow> database \<Rightarrow> (error + unit) \<times> database" where
  "insert_tabs [] d = (Inr (), d)"
| "insert_tabs (tab # rest) d =
     (case insert_tab tab d of
        (Inl e, d1) \<Rightarrow> (Inl e, d1)
      | (Inr u, d1) \<Rightarrow> insert_tabs rest d1)"

text \<open>\<open>db.transaction(fn)\<close>: when \<open>fn\<close> raises, the tables are as they were when the
  transaction began, and the error is rethrown. What the driver has used of its budget stays
  used; BEGIN, COMMIT and ROLLBACK use none of it.\<close>

definition insertMany :: "tab_state list \<Rightarrow> database \<Rightarrow> (error + unit) \<times> database" where
  "insertMany tabs d =
     (case insert_tabs tabs d of
        (Inl e, d1) \<Rightarrow> (Inl e, d\<lparr>fault_after := fault_after d1\<rparr>)
      | (Inr u, d1) \<Rightarrow> (Inr (), d1))"

text \<open>\<open>saveTabsState(tabs)\<close>: the DELETE runs on its own, before the transaction of the
  inserts starts. The error is rethrown.\<close>

definition saveTabsState :: "tab_state list \<Rightarrow> database option \<Rightarrow> (error + unit) \<times> database option" where
  "saveTabsState tabs db = with_db db (\<lambda>d.
     case statement d of
       (Inl e, d1) \<Rightarrow> (Inl e, d1)
     | (Inr u, d1) \<Rightarrow> insertMany tabs (d1\<lparr>open_tabs := []\<rparr>))"

text \<open>\<open>getTabsState()\<close>: \<open>ORDER BY position ASC\<close>, rows with equal positions in rowid order;
  the empty list when the statement raises.\<close>

definition row_to_tab_state :: "tab_row \<Rightarrow> tab_state" where
  "row_to_tab_state row = \<lparr>ts_id = tab_id row, ts_url = tab_url row, ts_title = tab_title row,
     ts_favicon = or_null (tab_favicon row), ts_position = tab_position row,
     ts_active = (tab_active row = 1)\<rparr>"

definition getTabsState :: "database option \<Rightarrow> (error + tab_state list) \<times> database option" where
  "getTabsState db = with_db db (\<lambda>d.
     case statement d of
       (Inl e, d1) \<Rightarrow> (Inr [], d1)
     | (Inr u, d1) \<Rightarrow> (Inr (map row_to_tab_state (sort_key tab_position (open_tabs d1))), d1))"

subsection \<open>Settings\<close>

definition getSetting :: "string \<Rightarrow> database option \<Rightarrow> (error + string option) \<times> database option" where
  "getSetting key db = with_db db (\<lambda>d.
     case statement d of
       (Inl e, d1) \<Rightarrow> (Inr None, d1)
     | (Inr u, d1) \<Rightarrow> (Inr (map_of (settings d1) key), d1))"

text \<open>\<open>INSERT ... ON CONFLICT(key) DO UPDATE SET value = excluded.value\<close>.\<close>

definition upsert_setting :: "string \<Rightarrow> string \<Rightarrow> (string \<times> string) list \<Rightarrow> (string \<times> string) list" where
  "upsert_setting key val rows =
     (if key \<in> set (map fst rows)
      then map (\<lambda>(k, v). if k = key then (k, val) else (k, v)) rows
      else rows @ [(key, val)])"

text \<open>\<open>setSetting(key, value)\<close>: \<open>true\<close>, or \<open>false\<close> when the statement raises.\<close>

definition setSetting :: "string \<Rightarrow> string \<Rightarrow> database option \<Rightarrow> (error + bool) \<times> database option" where
  "setSetting key val db = with_db db (\<lambda>d.
     case statement d of
       (Inl e, d1) \<Rightarrow> (Inr False, d1)
     | (Inr u, d1) \<Rightarrow> (Inr True, d1\<lparr>settings := upsert_setting key val (settings d1)\<rparr>))"

subsection \<open>Downloads\<close>

definition addDownload ::
  "string \<Rightarrow> string \<Rightarrow> string \<Rightarrow> int \<Rightarrow> int \<Rightarrow> database option \<Rightarrow> (error + unit) \<times> database option" where
  "addDownload ident filename savePath totalBytes now db = with_db db (\<lambda>d.
     case statement d of
       (Inl e, d1) \<Rightarrow> (Inl e, d1)
     | (Inr u, d1) \<Rightarrow>
         if ident \<in> set (map download_id (downloads d1))
         then (Inl (SqliteError ''UNIQUE constraint failed: downloads.id''), d1)
         else (Inr (), d1\<lparr>downloads := downloads d1 @
                 [\<lparr>download_id = ident, download_filename = filename,
                   download_savePath = savePath, download_totalBytes = totalBytes,
                   download_receivedBytes = 0, download_state = ''downloading'',
                   download_timestamp = now\<rparr>]\<rparr>))"

definition updateDownloadProgress ::
  "string \<Rightarrow> int \<Rightarrow> database option \<Rightarrow> (error + unit) \<times> database option" where
  "updateDownloadProgress ident receivedBytes db = with_db db (\<lambda>d.
     case statement d of
       (Inl e, d1) \<Rightarrow> (Inr (), d1)
     | (Inr u, d1) \<Rightarrow>
         (Inr (), d1\<lparr>downloads :=
            map (\<lambda>r. if download_id r = ident then r\<lparr>download_receivedBytes := receivedBytes\<rparr> else r)
              (downloads d1)\<rparr>))"

definition updateDownloadState ::
  "string \<Rightarrow> string \<Rightarrow> string \<Rightarrow> database option \<Rightarrow> (error + unit) \<times> database option" where
  "updateDownloadState ident state savePath db = with_db db (\<lambda>d.
     case statement d of
       (Inl e, d1) \<Rightarrow> (Inl e, d1)
     | (Inr u, d1) \<Rightarrow>
         (Inr (), d1\<lparr>downloads :=
            map (\<lambda>r. if download_id r = ident
                      then r\<lparr>download_state := state, download_savePath := savePath\<rparr> else r)
              (downloads d1)\<rparr>))"

text \<open>The rows \<open>getHistory\<close> selects.\<close>

definition recent_rows :: "database \<Rightarrow> history_row list" where
  "recent_rows d = take 1000 (sort_key (\<lambda>r. - history_timestamp r) (history d))"

text \<open>The row \<open>insert.run\<close> writes for a snapshot, and what a round trip compares.\<close>

definition tab_to_row :: "tab_state \<Rightarrow> tab_row" where
  "tab_to_row tab = \<lparr>tab_id = ts_id tab, tab_url = ts_url tab, tab_title = ts_title tab,
      tab_favicon = ts_favicon tab, tab_position = ts_position tab,
      tab_active = (if ts_active tab then 1 else 0)\<rparr>"

definition snapshot :: "tab_state \<Rightarrow> string \<times> string \<times> string \<times> bool \<times> int" where
  "snapshot tab = (ts_id tab, ts_url tab, ts_title tab, ts_active tab, ts_position tab)"

subsection \<open>Character classes and type guards\<close>

definition code :: "char \<Rightarrow> nat" where
  "code c = of_char c"

definition is_letter :: "char \<Rightarrow> bool" where
  "is_letter c = ((97 \<le> code c \<and> code c \<le> 122) \<or> (65 \<le> code c \<and> code c \<le> 90))"

definition is_digit :: "char \<Rightarrow> bool" where
  "is_digit c = (48 \<le> code c \<and> code c \<le> 57)"

text \<open>What \<open>String.prototype.trim\<close> removes, among the code units below 256.\<close>

definition is_space :: "char \<Rightarrow> bool" where
  "is_space c = (code c \<in> set [9, 10, 11, 12, 13, 32, 160])"

definition trim :: "string \<Rightarrow> string" where
  "trim s = rev (dropWhile is_space (rev (dropWhile is_space s)))"

text \<open>\<open>isValidSettingKey\<close>: \<^verbatim>\<open>/^[a-zA-Z0-9_-]+$/\<close> on the trimmed key, of 1 to 100 characters.\<close>

definition isValidSettingKey :: "string \<Rightarrow> bool" where
  "isValidSettingKey key =
     (let trimmed = trim key in
      if length trimmed = 0 \<or> length trimmed > 100 then False
      else list_all (\<lambda>c. is_letter c \<or> is_digit c \<or> c = CHR ''_'' \<or> c = CHR ''-'') trimmed)"

subsection \<open>Commands of the presentation layer\<close>

text \<open>\<open>ipcMain.handle('history:clear')\<close>: the error of \<open>clearHistory\<close> is logged and rethrown,
  so the caller's promise is rejected.\<close>

definition history_clear :: "database option \<Rightarrow> (error + unit) \<times> database option" where
  "history_clear db =
     (case clearHistory db of
        (Inl e, db1) \<Rightarrow> (Inl e, db1)
      | (Inr u, db1) \<Rightarrow> (Inr (), db1))"

text \<open>\<open>ipcMain.handle('settings:set')\<close>: the key is validated, \<open>setSetting(key, value)\<close> is
  called and its result dropped, and the handler returns \<open>true\<close>. What \<open>setSetting\<close> throws
  is logged and rethrown. (\<open>value\<close> is a string by its type.)\<close>

definition settings_set :: "string \<Rightarrow> string \<Rightarrow> database option \<Rightarrow> (error + bool) \<times> database option" where
  "settings_set key val db =
     (if \<not> isValidSettingKey key then (Inl (InvalidArgument ''key''), db)
      else
        (case setSetting key val db of
           (Inl e, db1) \<Rightarrow> (Inl e, db1)
         | (Inr saved, db1) \<Rightarrow> (Inr True, db1)))"

subsection \<open>Download tracking\<close>

text \<open>The first \<open>will-download\<close> listener of the web session, the one that writes to the
  store. \<open>ident\<close> is the UUID drawn for the download; the messages are those sent to the main
  window. (The second listener, \<open>handleDownload\<close>, forwards the host's events to the window
  and to every tab and writes nothing.)\<close>

datatype download_msg =
    DownloadStarted string string string int
  | DownloadProgress string string int int
  | DownloadComplete string string string

definition on_will_download ::
  "string \<Rightarrow> string \<Rightarrow> string \<Rightarrow> int \<Rightarrow> int \<Rightarrow> database option \<Rightarrow> database option \<times> download_msg" where
  "on_will_download ident filename savePath totalBytes now db =
     (snd (addDownload ident filename savePath totalBytes now db),
      DownloadStarted ident filename savePath totalBytes)"

text \<open>\<open>item.on('updated')\<close>: only the state \<open>progressing\<close> is acted on.\<close>

definition on_updated ::
  "string \<Rightarrow> string \<Rightarrow> string \<Rightarrow> int \<Rightarrow> int \<Rightarrow> database option \<Rightarrow> database option \<times> download_msg option" where
  "on_updated ident state savePath receivedBytes totalBytes db =
     (if state = ''progressing''
      then (snd (updateDownloadProgress ident receivedBytes db),
            Some (DownloadProgress ident savePath receivedBytes totalBytes))
      else (db, None))"

text \<open>\<open>item.once('done')\<close>: \<open>state\<close> is what the host reports (\<open>completed\<close>, \<open>cancelled\<close> or
  \<open>interrupted\<close>). What \<open>updateDownloadState\<close> throws is caught and logged.\<close>

definition finalState :: "string \<Rightarrow> string" where
  "finalState state = (if state = ''completed'' then ''completed'' else ''failed'')"

definition on_done ::
  "string \<Rightarrow> string \<Rightarrow> string \<Rightarrow> database option \<Rightarrow> database option \<times> download_msg" where
  "on_done ident state finalPath db =
     (snd (updateDownloadState ident (finalState state) finalPath db),
      DownloadComplete ident finalPath (finalState state))"

text \<open>The persisted state of a download.\<close>

definition persisted_state :: "string \<Rightarrow> database option \<Rightarrow> string list" where
  "persisted_state ident db =
     (case db of None \<Rightarrow> []
      | Some d \<Rightarrow> map download_state (filter (\<lambda>r. download_id r = ident) (downloads d)))"

subsection \<open>Regular expressions\<close>

text \<open>
  The regular expressions of the source are read as terms of \<open>regex\<close> and matched by
  derivatives: \<open>matches r s\<close> says that \<open>r\<close> matches the whole of \<open>s\<close>. \<open>regex.test(s)\<close>
  asks for a match of some substring (\<open>found\<close>), or of some prefix when the expression
  starts with \<open>^\<close> (\<open>found_at_start\<close>).
\<close>

datatype regex =
    Never
  | Empty
  | Class "char \<Rightarrow> bool"
  | Then regex regex
  | Or regex regex
  | Many regex

fun nullable :: "regex \<Rightarrow> bool" where
  "nullable Never = False"
| "nullable Empty = True"
| "nullable (Class P) = False"
| "nullable (Then a b) = (nullable a \<and> nullable b)"
| "nullable (Or a b) = (nullable a \<or> nullable b)"
| "nullable (Many a) = True"

fun deriv :: "char \<Rightarrow> regex \<Rightarrow> regex" where
  "deriv c Never = Never"
| "deriv c Empty = Never"
| "deriv c (Class P) = (if P c then Empty else Never)"
| "deriv c (Then a b) =
     (if nullable a then Or (Then (deriv c a) b) (deriv c b) else Then (deriv c a) b)"
| "deriv c (Or a b) = Or (deriv c a) (deriv c b)"
| "deriv c (Many a) = Then (deriv c a) (Many a)"

definition matches :: "regex \<Rightarrow> string \<Rightarrow> bool" where
  "matches r s = nullable (fold deriv s r)"

text \<open>A literal, \<open>r?\<close>, \<open>r+\<close> and \<open>r{2,}\<close>.\<close>

fun lit :: "string \<Rightarrow> regex" where
  "lit [] = Empty"
| "lit (c # cs) = Then (Class (\<lambda>x. x = c)) (lit cs)"

definition opt :: "regex \<Rightarrow> regex" where
  "opt r = Or r Empty"

definition some :: "regex \<Rightarrow> regex" where
  "some r = Then r (Many r)"

definition at_least_two :: "regex \<Rightarrow> regex" where
  "at_least_two r = Then r (Then r (Many r))"

definition found_at_start :: "regex \<Rightarrow> string \<Rightarrow> bool" where
  "found_at_start r s = list_ex (matches r) (prefixes s)"

definition found :: "regex \<Rightarrow> string \<Rightarrow> bool" where
  "found r s = list_ex (found_at_start r) (suffixes s)"

text \<open>
  \<^verbatim>\<open>/^(https?:\/\/)|(localhost)|([a-zA-Z0-9-]+\.)+[a-zA-Z]{2,}/\<close>: three alternatives, of
  which only the first is under the anchor \<open>^\<close>.
\<close>

definition label_char :: "char \<Rightarrow> bool" where
  "label_char c = (is_letter c \<or> is_digit c \<or> c = CHR ''-'')"

definition scheme_re :: regex where
  "scheme_re = Then (lit ''http'') (Then (opt (lit ''s'')) (lit ''://''))"

definition localhost_re :: regex where
  "localhost_re = lit ''localhost''"

definition domain_re :: regex where
  "domain_re = Then (some (Then (some (Class label_char)) (lit ''.''))) (at_least_two (Class is_letter))"

definition isUrl :: "string \<Rightarrow> bool" where
  "isUrl targetUrl =
     (found_at_start scheme_re targetUrl \<or> found localhost_re targetUrl \<or> found domain_re targetUrl)"

text \<open>The language of an expression, for the proofs about \<open>matches\<close>.\<close>

inductive_set star :: "string set \<Rightarrow> string set" for L :: "string set" where
  star_nil: "[] \<in> star L"
| star_step: "u \<in> L \<Longrightarrow> v \<in> star L \<Longrightarrow> u @ v \<in> star L"

fun lang :: "regex \<Rightarrow> string set" where
  "lang Never = {}"
| "lang Empty = {[]}"
| "lang (Class P) = {[c] | c. P c}"
| "lang (Then a b) = {u @ v | u v. u \<in> lang a \<and> v \<in> lang b}"
| "lang (Or a b) = lang a \<union> lang b"
| "lang (Many a) = star (lang a)"

text \<open>Somewhere in the string: a character of \<open>[a-zA-Z0-9-]\<close>, a dot and two letters in a
  row.\<close>

fun domain_window :: "string \<Rightarrow> bool" where
  "domain_window (c # d # l1 # l2 # rest) =
     ((label_char c \<and> d = CHR ''.'' \<and> is_letter l1 \<and> is_letter l2) \<or> domain_window (d # l1 # l2 # rest))"
| "domain_window s = False"

subsection \<open>The tab coordinator\<close>

text \<open>
  The module state of \<^verbatim>\<open>index.ts\<close>. A JavaScript \<open>Map\<close> is an association list in insertion
  order. Of a \<open>BrowserView\<close> the model keeps the URL its \<open>webContents\<close> reports and the last
  argument of \<open>loadURL\<close>; attaching a view to the window, resizing it and stopping a search
  in it are calls into the host that change none of the components below. \<open>sent\<close> is what
  \<open>mainWindow.webContents.send\<close> has been called with, oldest first; \<open>immediates\<close> is the
  queue of callbacks passed to \<open>setImmediate\<close>, which the event loop runs in order once
  the running handler has returned.
\<close>

datatype load_request = LoadURL string | LoadNonString

record view =
  view_url :: string
  view_load :: "load_request option"

record tab_info =
  info_url :: string
  info_title :: string
  info_favicon :: "string option"

datatype ui_msg =
    TabSwitched string string
  | FindRestoreState
  | TabCreated string string string "string option"
  | TabClosed string

datatype task = SendFindRestoreState

record app_state =
  tabs :: "(string \<times> view) list"
  tabInfo :: "(string \<times> tab_info) list"
  tabFindBarStates :: "(string \<times> bool) list"
  activeTabId :: "string option"
  sent :: "ui_msg list"
  immediates :: "task list"
  database_handle :: "database option"

definition initial_state :: "database option \<Rightarrow> app_state" where
  "initial_state db = \<lparr>tabs = [], tabInfo = [], tabFindBarStates = [], activeTabId = None,
     sent = [], immediates = [], database_handle = db\<rparr>"

text \<open>\<open>Map.prototype.set\<close>, \<open>delete\<close> and \<open>has\<close>.\<close>

definition map_set :: "string \<Rightarrow> 'v \<Rightarrow> (string \<times> 'v) list \<Rightarrow> (string \<times> 'v) list" where
  "map_set k v m =
     (if k \<in> set (map fst m) then map (\<lambda>(k', v'). if k' = k then (k', v) else (k', v')) m
      else m @ [(k, v)])"

definition map_delete :: "string \<Rightarrow> (string \<times> 'v) list \<Rightarrow> (string \<times> 'v) list" where
  "map_delete k m = filter (\<lambda>(k', v'). k' \<noteq> k) m"

definition map_has :: "(string \<times> 'v) list \<Rightarrow> string \<Rightarrow> bool" where
  "map_has m k = (k \<in> set (map fst m))"

definition switchToTab :: "string \<Rightarrow> app_state \<Rightarrow> app_state" where
  "switchToTab ident s =
     (if \<not> map_has (tabs s) ident then s
      else
        (case map_of (tabs s) ident of
           None \<Rightarrow> s
         | Some v \<Rightarrow>
             s\<lparr>activeTabId := Some ident,
               sent := sent s @ [TabSwitched ident (view_url v)],
               immediates := immediates s @ [SendFindRestoreState]\<rparr>))"

text \<open>One turn of the event loop's check phase: the queued callbacks run in order.\<close>

fun run_task :: "task \<Rightarrow> app_state \<Rightarrow> app_state" where
  "run_task SendFindRestoreState s = s\<lparr>sent := sent s @ [FindRestoreState]\<rparr>"

definition run_immediates :: "app_state \<Rightarrow> app_state" where
  "run_immediates s = fold run_task (immediates s) (s\<lparr>immediates := []\<rparr>)"

text \<open>\<open>view.webContents.loadURL(url)\<close> on the view of a tab.\<close>

definition loadURL :: "string \<Rightarrow> load_request \<Rightarrow> app_state \<Rightarrow> app_state" where
  "loadURL ident request s =
     s\<lparr>tabs := map (\<lambda>(k, v). if k = ident then (k, v\<lparr>view_load := Some request\<rparr>) else (k, v))
                 (tabs s)\<rparr>"

text \<open>The title a new tab starts with.\<close>

definition initialTitle :: "string \<Rightarrow> string" where
  "initialTitle finalUrl =
     (if startsWith finalUrl ''hera://'' then
        (if includes_str finalUrl ''settings'' then ''Configura'' @ [CHR 0xE7, CHR 0xF5] @ ''es''
         else if includes_str finalUrl ''new-tab'' then ''Nova Aba''
         else if includes_str finalUrl ''history'' then ''Hist'' @ [CHR 0xF3] @ ''rico''
         else if includes_str finalUrl ''downloads'' then ''Downloads''
         else ''Hera Browser'')
      else ''Nova Aba'')"

definition initialFavicon :: "string \<Rightarrow> string option" where
  "initialFavicon finalUrl =
     (if startsWith finalUrl ''hera://'' then Some ''hera://HeraBrowser256x256.png'' else None)"

text \<open>\<open>createNewTab(url)\<close>; \<open>ident\<close> is what \<open>uuidv4()\<close> returns. A new view reports the empty
  URL.\<close>

definition createNewTab :: "string option \<Rightarrow> string \<Rightarrow> app_state \<Rightarrow> app_state" where
  "createNewTab url ident s =
     (let finalUrl = (case or_null url of None \<Rightarrow> ''hera://new-tab'' | Some u \<Rightarrow> u);
          s1 = s\<lparr>tabs := map_set ident \<lparr>view_url = [], view_load = None\<rparr> (tabs s),
                 tabInfo := map_set ident
                   \<lparr>info_url = finalUrl, info_title = initialTitle finalUrl,
                     info_favicon = initialFavicon finalUrl\<rparr> (tabInfo s)\<rparr>;
          s2 = switchToTab ident s1;
          s3 = loadURL ident (LoadURL finalUrl) s2
      in s3\<lparr>sent := sent s3 @
            [TabCreated ident (initialTitle finalUrl) finalUrl (initialFavicon finalUrl)]\<rparr>)"

text \<open>The snapshot \<open>closeTab\<close> and the \<open>will-quit\<close> handler build from the module state.\<close>

definition tabsArray :: "app_state \<Rightarrow> tab_state list" where
  "tabsArray s =
     map (\<lambda>(index, ident).
           \<lparr>ts_id = ident,
             ts_url = or_empty (map_option info_url (map_of (tabInfo s) ident)),
             ts_title = or_empty (map_option info_title (map_of (tabInfo s) ident)),
             ts_favicon = (case map_of (tabInfo s) ident of None \<Rightarrow> None | Some i \<Rightarrow> info_favicon i),
             ts_position = int index,
             ts_active = (Some ident = activeTabId s)\<rparr>)
       (enumerate 0 (map fst (tabs s)))"

text \<open>\<open>closeTab(id)\<close>; \<open>fresh\<close> is what \<open>uuidv4()\<close> returns if a replacement tab is created.
  What \<open>saveTabsState\<close> throws is caught and logged.\<close>

definition closeTab :: "string \<Rightarrow> string \<Rightarrow> app_state \<Rightarrow> app_state" where
  "closeTab ident fresh s =
     (if \<not> map_has (tabs s) ident then s
      else
        (let s1 = s\<lparr>tabs := map_delete ident (tabs s),
                    tabInfo := map_delete ident (tabInfo s),
                    tabFindBarStates := map_delete ident (tabFindBarStates s),
                    sent := sent s @ [TabClosed ident]\<rparr>;
             s2 = (if activeTabId s1 = Some ident then
                     (case tabs s1 of
                        (lastTabId, v) # rest \<Rightarrow> switchToTab lastTabId s1
                      | [] \<Rightarrow> createNewTab None fresh s1)
                   else s1)
         in s2\<lparr>database_handle := snd (saveTabsState (tabsArray s2) (database_handle s2))\<rparr>))"

text \<open>Commands of the presentation layer, with the UUIDs their handling draws.\<close>

datatype tab_command = NewTab "string option" string | SwitchTab string | CloseTab string string

fun run_command :: "tab_command \<Rightarrow> app_state \<Rightarrow> app_state" where
  "run_command (NewTab url ident) s = createNewTab url ident s"
| "run_command (SwitchTab ident) s = switchToTab ident s"
| "run_command (CloseTab ident fresh) s = closeTab ident fresh s"

definition run_commands :: "tab_command list \<Rightarrow> app_state \<Rightarrow> app_state" where
  "run_commands cs s = fold run_command cs s"

text \<open>What a tab created with no address holds.\<close>

definition default_tab_info :: tab_info where
  "default_tab_info = \<lparr>info_url = ''hera://new-tab'', info_title = ''Nova Aba'',
     info_favicon = Some ''hera://HeraBrowser256x256.png''\<rparr>"

text \<open>The coordinator's invariant: unless no tab is open, the active id is that of an open
  tab. \<open>reached cs db\<close> is the state after the commands \<open>cs\<close> from the start of the
  application.\<close>

definition active_is_open :: "app_state \<Rightarrow> bool" where
  "active_is_open s =
     (tabs s = [] \<or> (case activeTabId s of None \<Rightarrow> False | Some ident \<Rightarrow> map_has (tabs s) ident))"

definition reached :: "tab_command list \<Rightarrow> database option \<Rightarrow> app_state" where
  "reached cs db = run_commands cs (initial_state db)"

subsection \<open>The \<open>navigate-from-newtab\<close> host\<close>

text \<open>\<open>encodeURIComponent\<close>: the unreserved characters stay, every other code unit is
  written as the percent-encoded bytes of its UTF-8 form.\<close>

definition hex_digit :: "nat \<Rightarrow> char" where
  "hex_digit n = ''0123456789ABCDEF'' ! (n mod 16)"

definition percent :: "nat \<Rightarrow> string" where
  "percent n = [CHR ''%'', hex_digit (n div 16), hex_digit n]"

definition unreserved :: "char \<Rightarrow> bool" where
  "unreserved c = (is_letter c \<or> is_digit c \<or>
     c \<in> set [CHR ''-'', CHR ''_'', CHR ''.'', CHR ''!'', CHR ''~'', CHR ''*'', CHR 0x27,
               CHR ''('', CHR '')''])"

definition encode_char :: "char \<Rightarrow> string" where
  "encode_char c =
     (if unreserved c then [c]
      else if code c < 128 then percent (code c)
      else percent (192 + code c div 64) @ percent (128 + code c mod 64))"

definition encodeURIComponent :: "string \<Rightarrow> string" where
  "encodeURIComponent s = concat (map encode_char s)"

text \<open>The object \<open>searchEngines\<close>, read at the key \<open>searchEngine\<close>. A key that is not its
  own but a property every object inherits yields a value that is not a string; any
  other key yields \<open>undefined\<close>.\<close>

definition object_prototype_keys :: "string list" where
  "object_prototype_keys = [''constructor'', ''hasOwnProperty'', ''isPrototypeOf'',
     ''propertyIsEnumerable'', ''toLocaleString'', ''toString'', ''valueOf'', ''__proto__'',
     ''__defineGetter__'', ''__defineSetter__'', ''__lookupGetter__'', ''__lookupSetter__'']"

definition google_search :: "string \<Rightarrow> string" where
  "google_search targetUrl = ''https://www.google.com/search?q='' @ encodeURIComponent targetUrl"

definition searchEngines :: "string \<Rightarrow> string \<Rightarrow> load_request option" where
  "searchEngines targetUrl searchEngine =
     (if searchEngine = ''google'' then Some (LoadURL (google_search targetUrl))
      else if searchEngine = ''brave''
        then Some (LoadURL (''https://search.brave.com/search?q='' @ encodeURIComponent targetUrl))
      else if searchEngine = ''duckduckgo''
        then Some (LoadURL (''https://duckduckgo.com/?q='' @ encodeURIComponent targetUrl))
      else if searchEngine \<in> set object_prototype_keys then Some LoadNonString
      else None)"

text \<open>\<open>searchEngines[getSetting('searchEngine') || 'google'] || searchEngines.google\<close>, given
  what \<open>getSetting\<close> returned.\<close>

definition search_request :: "string \<Rightarrow> string option \<Rightarrow> load_request" where
  "search_request targetUrl setting =
     (case searchEngines targetUrl (case or_null setting of None \<Rightarrow> ''google'' | Some e \<Rightarrow> e) of
        None \<Rightarrow> LoadURL (google_search targetUrl)
      | Some request \<Rightarrow> request)"

text \<open>The branch of the protocol handler for the host \<open>navigate-from-newtab\<close>; \<open>targetUrl\<close>
  is \<open>url.searchParams.get('url')\<close>. The work is done in an asynchronous function whose
  rejection is logged: when \<open>getSetting\<close> throws, nothing is loaded.\<close>

definition navigate_from_newtab :: "string option \<Rightarrow> app_state \<Rightarrow> app_state" where
  "navigate_from_newtab targetUrl s =
     (case or_null (activeTabId s) of
        None \<Rightarrow> s
      | Some active \<Rightarrow>
          (case or_null targetUrl of
             None \<Rightarrow> s
           | Some target \<Rightarrow>
               (case map_of (tabs s) active of
                  None \<Rightarrow> s
                | Some activeView \<Rightarrow>
                    if isUrl target then
                      loadURL active
                        (LoadURL (if \<not> startsWith target ''http://'' \<and> \<not> startsWith target ''https://''
                                  then ''https://'' @ target else target)) s
                    else
                      (case getSetting ''searchEngine'' (database_handle s) of
                         (Inl e, db1) \<Rightarrow> s\<lparr>database_handle := db1\<rparr>
                       | (Inr setting, db1) \<Rightarrow>
                           loadURL active (search_request target setting)
                             (s\<lparr>database_handle := db1\<rparr>)))))"

text \<open>What the view of a tab was last asked to load.\<close>

definition requested :: "string \<Rightarrow> app_state \<Rightarrow> load_request option" where
  "requested ident s = (case map_of (tabs s) ident of None \<Rightarrow> None | Some v \<Rightarrow> view_load v)"

subsection \<open>Concrete inputs\<close>

text \<open>Three visits to one address, among visits to others.\<close>

definition three_visits :: "(string \<times> string \<times> string option \<times> int) list" where
  "three_visits = [(''https://a.org/'', ''A'', None, 100), (''https://b.org/'', ''B'', None, 150),
     (''https://a.org/'', ''A again'', None, 200), (''hera://history'', ''H'', None, 250),
     (''https://a.org/'', ''A last'', Some ''https://a.org/favicon.ico'', 300)]"

text \<open>A history of three rows, the second without a visit count.\<close>

definition small_history :: database where
  "small_history = \<lparr>history =
       [\<lparr>history_id = 1, history_url = ''https://a.org/'', history_title = ''A'',
          history_timestamp = 10, history_visit_count = Some 1, history_favicon = None\<rparr>,
        \<lparr>history_id = 2, history_url = ''https://b.org/'', history_title = ''B'',
          history_timestamp = 30, history_visit_count = None, history_favicon = None\<rparr>,
        \<lparr>history_id = 3, history_url = ''https://c.org/'', history_title = ''C'',
          history_timestamp = 20, history_visit_count = Some 4, history_favicon = Some []\<rparr>],
     history_seq = 3, open_tabs = [], bookmarks = [], settings = [], downloads = [],
     fault_after = None\<rparr>"

text \<open>The same history with a visit count in every row.\<close>

definition valid_history :: database where
  "valid_history = small_history\<lparr>history :=
       map (\<lambda>r. r\<lparr>history_visit_count := Some 1\<rparr>) (history small_history)\<rparr>"

text \<open>Tab snapshots, and a store that holds one saved tab.\<close>

definition tab_a :: tab_state where
  "tab_a = \<lparr>ts_id = ''a'', ts_url = ''https://a.org/'', ts_title = ''A'', ts_favicon = None,
     ts_position = 1, ts_active = False\<rparr>"

definition tab_b :: tab_state where
  "tab_b = \<lparr>ts_id = ''b'', ts_url = ''hera://new-tab'', ts_title = ''Nova Aba'',
     ts_favicon = Some ''hera://HeraBrowser256x256.png'', ts_position = 0, ts_active = True\<rparr>"

definition saved_db :: database where
  "saved_db = \<lparr>history = [], history_seq = 0,
     open_tabs = [\<lparr>tab_id = ''old'', tab_url = ''https://old.org/'', tab_title = ''Old'',
                   tab_favicon = None, tab_position = 0, tab_active = 1\<rparr>],
     bookmarks = [], settings = [], downloads = [], fault_after = None\<rparr>"

text \<open>Bookmarks \<open>a\<close> and \<open>b\<close> are added at the root, \<open>a\<close> is removed, \<open>c\<close> is added.\<close>

definition bookmarks_ab :: "database option" where
  "bookmarks_ab =
     snd (addBookmark ''b'' ''https://b.org/'' ''B'' None None
       (snd (addBookmark ''a'' ''https://a.org/'' ''A'' None None (initDatabase None))))"

definition bookmarks_bc :: "database option" where
  "bookmarks_bc =
     snd (addBookmark ''c'' ''https://c.org/'' ''C'' None None
       (snd (removeBookmark ''a'' bookmarks_ab)))"

definition sibling_positions :: "string option \<Rightarrow> database option \<Rightarrow> (string \<times> int) list" where
  "sibling_positions folder db =
     (case db of None \<Rightarrow> []
      | Some d \<Rightarrow> map (\<lambda>r. (bookmark_id r, bookmark_position r))
          (filter (\<lambda>r. bookmark_folder_id r = folder) (bookmarks d)))"

text \<open>A download of 1000 bytes that has received all of them.\<close>

definition full_download :: "database option" where
  "full_download =
     fst (on_updated ''d1'' ''progressing'' ''/tmp/file.zip'' 1000 1000
       (fst (on_will_download ''d1'' ''file.zip'' ''/tmp/file.zip'' 1000 5 (initDatabase None))))"

definition received_of :: "string \<Rightarrow> database option \<Rightarrow> (int \<times> int) list" where
  "received_of ident db =
     (case db of None \<Rightarrow> []
      | Some d \<Rightarrow> map (\<lambda>r. (download_receivedBytes r, download_totalBytes r))
          (filter (\<lambda>r. download_id r = ident) (downloads d)))"

text \<open>Two tabs are opened.\<close>

definition two_tabs :: "tab_command list" where
  "two_tabs = [NewTab None ''t1'', NewTab (Some ''https://a.org/'') ''t2'']"

text \<open>The application with its first tab open, on a new store.\<close>

definition newtab_state :: app_state where
  "newtab_state = reached [NewTab None ''t1''] (initDatabase None)"

text \<open>The same with \<open>brave\<close> stored as the search engine, and without a database.\<close>

definition brave_state :: app_state where
  "brave_state =
     reached [NewTab None ''t1''] (snd (setSetting ''searchEngine'' ''brave'' (initDatabase None)))"

definition offline_state :: app_state where
  "offline_state = reached [NewTab None ''t1''] None"

section \<open>Properties\<close>

subsection \<open>History: one row per address\<close>

lemma statement_ok: "fault_after d = None \<Longrightarrow> statement d = (Inr (), d)"
  by (simp add: statement_def)

lemma fold_max_ge: "(x::int) \<in> set xs \<Longrightarrow> x \<le> fold max xs m"
proof (induction xs arbitrary: m)
  case Nil then show ?case by simp
next
  case (Cons y ys)
  have mono: "\<And>a b. (a::int) \<le> b \<Longrightarrow> fold max ys a \<le> fold max ys b"
  proof -
    fix a b :: int assume "a \<le> b"
    then show "fold max ys a \<le> fold max ys b"
      by (induction ys arbitrary: a b) (auto simp: max_def)
  qed
  have start: "\<And>a. (a::int) \<le> fold max ys a"
  proof -
    fix a :: int show "a \<le> fold max ys a"
    proof (induction ys arbitrary: a)
      case Nil then show ?case by simp
    next
      case (Cons z zs)
      have "a \<le> max z a" by simp
      also have "\<dots> \<le> fold max zs (max z a)" by (rule Cons.IH)
      finally show ?case by simp
    qed
  qed
  show ?case
  proof (cases "x = y")
    case True
    have "y \<le> max y m" by simp
    also have "\<dots> \<le> fold max ys (max y m)" by (rule start)
    finally show ?thesis using True by simp
  next
    case False
    with Cons.prems have "x \<in> set ys" by simp
    then show ?thesis using Cons.IH by simp
  qed
qed

lemma next_history_id_fresh: "r \<in> set (history d) \<Longrightarrow> history_id r < next_history_id d"
  using fold_max_ge[of "history_id r" "map history_id (history d)" "history_seq d"]
  by (simp add: next_history_id_def)

lemma addHistoryEntry_ok:
  "fault_after d = None \<Longrightarrow> \<not> startsWith url ''hera://'' \<Longrightarrow>
   addHistoryEntry url title favicon now (Some d) = (Inr (), Some (history_step url title favicon now d))"
  by (simp add: addHistoryEntry_def with_db_def statement_ok history_step_def split: option.splits)

lemma addHistoryEntry_internal:
  "startsWith url ''hera://'' \<Longrightarrow> addHistoryEntry url title favicon now (Some d) = (Inr (), Some d)"
  by (simp add: addHistoryEntry_def with_db_def)

lemma history_step_fault: "fault_after (history_step u t f n d) = fault_after d"
  by (simp add: history_step_def split: option.splits)

lemma history_visit_id: "history_id (history_visit t f n r) = history_id r"
  and history_visit_url: "history_url (history_visit t f n r) = history_url r"
  by (simp_all add: history_visit_def)

lemma history_step_distinct:
  assumes "distinct (map history_id (history d))"
  shows "distinct (map history_id (history (history_step u t f n d)))"
proof (cases "find (\<lambda>r. history_url r = u) (history d)")
  case None
  have "next_history_id d \<notin> history_id ` set (history d)"
    using next_history_id_fresh[of _ d] by force
  with assms None show ?thesis by (simp add: history_step_def)
next
  case (Some ex)
  have "map history_id (map (\<lambda>r. if history_id r = history_id ex
           then history_visit t f n r else r) (history d)) = map history_id (history d)"
    by (induction "history d") (simp_all add: history_visit_id)
  with assms have "distinct (map history_id (map (\<lambda>r. if history_id r = history_id ex
           then history_visit t f n r else r) (history d)))"
    by (simp only:)
  with Some show ?thesis by (simp add: history_step_def del: map_map)
qed

lemma find_filter: "find P xs = (case filter P xs of [] \<Rightarrow> None | x # _ \<Rightarrow> Some x)"
  by (induction xs) auto

lemma distinct_same_id:
  "distinct (map history_id rows) \<Longrightarrow> r \<in> set rows \<Longrightarrow> r' \<in> set rows \<Longrightarrow>
   history_id r = history_id r' \<Longrightarrow> r = r'"
  by (meson distinct_map inj_onD)

lemma history_step_other:
  assumes "distinct (map history_id (history d))" "u \<noteq> a"
  shows "history_for a (history_step u t f n d) = history_for a d"
proof (cases "find (\<lambda>r. history_url r = u) (history d)")
  case None
  with assms show ?thesis by (simp add: history_step_def history_for_def)
next
  case (Some ex)
  then have ex: "ex \<in> set (history d)" "history_url ex = u"
    by (auto simp: find_Some_iff)
  have "filter (\<lambda>r. history_url r = a) (map (\<lambda>r. if history_id r = history_id ex
           then history_visit t f n r else r) (history d)) = filter (\<lambda>r. history_url r = a) (history d)"
  proof -
    have same: "\<And>r. r \<in> set (history d) \<Longrightarrow> history_id r = history_id ex \<Longrightarrow> history_url r = u"
      using distinct_same_id[OF assms(1) _ ex(1)] ex(2) by blast
    have "\<And>rows. set rows \<subseteq> set (history d) \<Longrightarrow>
        filter (\<lambda>r. history_url r = a) (map (\<lambda>r. if history_id r = history_id ex
           then history_visit t f n r else r) rows) = filter (\<lambda>r. history_url r = a) rows"
    proof -
      fix rows show "set rows \<subseteq> set (history d) \<Longrightarrow>
        filter (\<lambda>r. history_url r = a) (map (\<lambda>r. if history_id r = history_id ex
           then history_visit t f n r else r) rows) = filter (\<lambda>r. history_url r = a) rows"
        using same assms(2) by (induction rows) (auto simp: history_visit_url)
    qed
    then show ?thesis by simp
  qed
  with Some show ?thesis by (simp add: history_step_def history_for_def)
qed

lemma history_step_first:
  assumes "history_for a d = []"
  shows "history_for a (history_step a t f n d) =
     [\<lparr>history_id = next_history_id d, history_url = a, history_title = t,
       history_timestamp = n, history_visit_count = Some 1, history_favicon = f\<rparr>]"
proof -
  from assms have "find (\<lambda>r. history_url r = a) (history d) = None"
    by (simp add: find_filter history_for_def)
  with assms show ?thesis by (simp add: history_step_def history_for_def)
qed

lemma history_step_again:
  assumes "distinct (map history_id (history d))" "history_for a d = [r]"
  shows "history_for a (history_step a t f n d) = [history_visit t f n r]"
proof -
  from assms(2) have fnd: "find (\<lambda>r. history_url r = a) (history d) = Some r"
    by (simp add: find_filter history_for_def)
  from assms(2) have "r \<in> set (history_for a d)" by simp
  then have r: "r \<in> set (history d)" "history_url r = a"
    by (simp_all add: history_for_def)
  have only: "\<And>r'. r' \<in> set (history d) \<Longrightarrow> history_url r' = a \<Longrightarrow> r' = r"
  proof -
    fix r' assume "r' \<in> set (history d)" "history_url r' = a"
    then have "r' \<in> set (history_for a d)" by (simp add: history_for_def)
    with assms(2) show "r' = r" by simp
  qed
  have same: "\<And>r'. r' \<in> set (history d) \<Longrightarrow> history_id r' = history_id r \<Longrightarrow> r' = r"
    using distinct_same_id[OF assms(1) _ r(1)] by blast
  have "\<And>rows. set rows \<subseteq> set (history d) \<Longrightarrow>
      filter (\<lambda>r. history_url r = a) (map (\<lambda>x. if history_id x = history_id r
           then history_visit t f n x else x) rows) =
      map (history_visit t f n) (filter (\<lambda>r. history_url r = a) rows)"
  proof -
    fix rows show "set rows \<subseteq> set (history d) \<Longrightarrow>
      filter (\<lambda>r. history_url r = a) (map (\<lambda>x. if history_id x = history_id r
           then history_visit t f n x else x) rows) =
      map (history_visit t f n) (filter (\<lambda>r. history_url r = a) rows)"
      using same only r(2) by (induction rows) (auto simp: history_visit_url)
  qed
  then have "filter (\<lambda>r. history_url r = a) (map (\<lambda>x. if history_id x = history_id r
           then history_visit t f n x else x) (history d)) =
      map (history_visit t f n) (history_for a d)"
    by (simp add: history_for_def)
  with fnd assms(2) show ?thesis by (simp add: history_step_def history_for_def)
qed

lemma addHistoryEntries_append:
  "addHistoryEntries (vs @ ws) db = addHistoryEntries ws (addHistoryEntries vs db)"
  by (induction vs arbitrary: db) auto

lemma history_visit_fields:
  "history_visit_count (history_visit t f n r) = map_option (\<lambda>c. c + 1) (history_visit_count r)"
  "history_timestamp (history_visit t f n r) = n"
  "history_title (history_visit t f n r) = t"
  by (simp_all add: history_visit_def)

lemma addHistoryEntries_invariant:
  assumes ok: "fault_after d = None" "distinct (map history_id (history d))"
    and ext: "\<not> startsWith a ''hera://''" and fresh: "history_for a d = []"
  shows "\<exists>d'. addHistoryEntries vs (Some d) = Some d' \<and> fault_after d' = None \<and>
           distinct (map history_id (history d')) \<and>
           (if visits_to a vs = [] then history_for a d' = []
            else \<exists>r. history_for a d' = [r] \<and>
                   history_visit_count r = Some (int (length (visits_to a vs))) \<and>
                   history_title r = fst (snd (last (visits_to a vs))) \<and>
                   history_timestamp r = snd (snd (snd (last (visits_to a vs)))))"
proof (induction vs rule: rev_induct)
  case Nil
  with ok fresh show ?case by (simp add: visits_to_def)
next
  case (snoc v vs)
  then obtain d1 where d1: "addHistoryEntries vs (Some d) = Some d1" "fault_after d1 = None"
      "distinct (map history_id (history d1))"
    and rows: "if visits_to a vs = [] then history_for a d1 = []
            else \<exists>r. history_for a d1 = [r] \<and>
                   history_visit_count r = Some (int (length (visits_to a vs))) \<and>
                   history_title r = fst (snd (last (visits_to a vs))) \<and>
                   history_timestamp r = snd (snd (snd (last (visits_to a vs))))"
    by blast
  obtain u t f n where v: "v = (u, t, f, n)" by (cases v) auto
  have run: "addHistoryEntries (vs @ [v]) (Some d) = snd (addHistoryEntry u t f n (Some d1))"
    by (simp add: addHistoryEntries_append d1 v)
  show ?case
  proof (cases "startsWith u ''hera://''")
    case True
    with ext have "u \<noteq> a" by auto
    then have "visits_to a (vs @ [v]) = visits_to a vs" by (simp add: visits_to_def v)
    with True run d1 rows show ?thesis by (simp add: addHistoryEntry_internal)
  next
    case False
    let ?d2 = "history_step u t f n d1"
    have res: "addHistoryEntries (vs @ [v]) (Some d) = Some ?d2"
      using run False d1(2) by (simp add: addHistoryEntry_ok)
    have keep: "fault_after ?d2 = None" "distinct (map history_id (history ?d2))"
      using d1 by (simp_all add: history_step_fault history_step_distinct)
    show ?thesis
    proof (cases "u = a")
      case False
      then have "visits_to a (vs @ [v]) = visits_to a vs" by (simp add: visits_to_def v)
      moreover have "history_for a ?d2 = history_for a d1"
        using False d1(3) by (rule history_step_other[rotated])
      ultimately show ?thesis using res keep rows by simp
    next
      case True
      have vis: "visits_to a (vs @ [v]) = visits_to a vs @ [v]" by (simp add: visits_to_def v True)
      show ?thesis
      proof (cases "visits_to a vs = []")
        case True
        with rows have "history_for a d1 = []" by simp
        then have "history_for a (history_step a t f n d1) =
           [\<lparr>history_id = next_history_id d1, history_url = a, history_title = t,
             history_timestamp = n, history_visit_count = Some 1, history_favicon = f\<rparr>]"
          by (rule history_step_first)
        with res keep vis True \<open>u = a\<close> show ?thesis by (simp add: v)
      next
        case False
        with rows obtain r where r: "history_for a d1 = [r]"
            "history_visit_count r = Some (int (length (visits_to a vs)))" by auto
        have "history_for a (history_step a t f n d1) = [history_visit t f n r]"
          using d1(3) r(1) by (rule history_step_again)
        with res keep vis False \<open>u = a\<close> r(2) show ?thesis
          by (simp add: v history_visit_fields)
      qed
    qed
  qed
qed

text \<open>
  Claim C4. Let the store be one whose statements do not fail and whose history rows have
  distinct ids (the primary key), and let it hold no row for the address \<open>a\<close>. If \<open>a\<close> is not
  under \<open>hera://\<close>, then after any run of \<open>addHistoryEntry\<close> calls, for whatever addresses,
  of which \<open>n \<ge> 1\<close> are for \<open>a\<close>, the table holds exactly one row whose url is \<open>a\<close>; its
  \<open>visit_count\<close> is \<open>n\<close>, and its title and timestamp are those of the last call for \<open>a\<close>.
  If \<open>a\<close> is under \<open>hera://\<close>, \<open>addHistoryEntry\<close> leaves the store as it was.
\<close>

theorem history_one_row_per_address:
  "(fault_after d = None \<and> distinct (map history_id (history d)) \<and>
    \<not> startsWith a ''hera://'' \<and> history_for a d = [] \<and> visits_to a vs \<noteq> [] \<longrightarrow>
      (\<exists>d' r. addHistoryEntries vs (Some d) = Some d' \<and> history_for a d' = [r] \<and>
         history_visit_count r = Some (int (length (visits_to a vs))) \<and>
         history_title r = fst (snd (last (visits_to a vs))) \<and>
         history_timestamp r = snd (snd (snd (last (visits_to a vs)))))) \<and>
   (startsWith a ''hera://'' \<longrightarrow> snd (addHistoryEntry a title favicon now db) = db)"
proof (intro conjI impI)
  assume h: "fault_after d = None \<and> distinct (map history_id (history d)) \<and>
    \<not> startsWith a ''hera://'' \<and> history_for a d = [] \<and> visits_to a vs \<noteq> []"
  then obtain d' where "addHistoryEntries vs (Some d) = Some d'"
     "if visits_to a vs = [] then history_for a d' = []
            else \<exists>r. history_for a d' = [r] \<and>
                   history_visit_count r = Some (int (length (visits_to a vs))) \<and>
                   history_title r = fst (snd (last (visits_to a vs))) \<and>
                   history_timestamp r = snd (snd (snd (last (visits_to a vs))))"
    using addHistoryEntries_invariant[of d a vs] by blast
  with h show "\<exists>d' r. addHistoryEntries vs (Some d) = Some d' \<and> history_for a d' = [r] \<and>
         history_visit_count r = Some (int (length (visits_to a vs))) \<and>
         history_title r = fst (snd (last (visits_to a vs))) \<and>
         history_timestamp r = snd (snd (snd (last (visits_to a vs))))"
    by auto
next
  assume "startsWith a ''hera://''"
  then show "snd (addHistoryEntry a title favicon now db) = db"
    by (cases db) (simp_all add: addHistoryEntry_def with_db_def)
qed

theorem history_one_row_per_address_witness:
  "(\<exists>d' r. addHistoryEntries three_visits (initDatabase None) = Some d' \<and>
       history_for ''https://a.org/'' d' = [r] \<and> history_visit_count r = Some 3 \<and>
       history_title r = ''A last'' \<and> history_timestamp r = 300) \<and>
   snd (addHistoryEntry ''hera://history'' ''H'' None 250 (initDatabase None)) = initDatabase None"
  using history_one_row_per_address[of "the (initDatabase None)" "''https://a.org/''" three_visits]
    history_one_row_per_address[of _ "''hera://history''" _ "''H''" None 250 "initDatabase None"]
  by (simp add: initDatabase_def startsWith_def history_for_def visits_to_def three_visits_def)

subsection \<open>History: the 1000 most recent entries\<close>

lemma sorted_take_earlier:
  assumes "sorted (map f xs)" "y \<in> set (take n xs)" "x \<in> set xs" "f x < f y"
  shows "x \<in> set (take n xs)"
proof (rule ccontr)
  assume "x \<notin> set (take n xs)"
  with assms(3) have xd: "x \<in> set (drop n xs)"
    by (metis Un_iff append_take_drop_id set_append)
  have "sorted (map f (take n xs) @ map f (drop n xs))"
    using assms(1) by (metis append_take_drop_id map_append)
  then have "\<forall>a\<in>set (map f (take n xs)). \<forall>b\<in>set (map f (drop n xs)). a \<le> b"
    by (simp add: sorted_append)
  with assms(2) xd have "f y \<le> f x" by auto
  with assms(4) show False by simp
qed

lemma getHistory_result:
  "fst (getHistory (Some d)) = Inr [] \<or>
   fst (getHistory (Some d)) = Inr (validateHistoryEntries (map row_to_entry (recent_rows d)))"
  by (auto simp: getHistory_def with_db_def statement_def recent_rows_def
      split: option.splits nat.splits)

lemma getHistory_healthy:
  "fault_after d = None \<Longrightarrow>
   fst (getHistory (Some d)) = Inr (validateHistoryEntries (map row_to_entry (recent_rows d)))"
  by (simp add: getHistory_def with_db_def statement_def recent_rows_def)

lemma recent_rows_sorted:
  "sorted_wrt (\<lambda>x y. x \<ge> y) (map history_timestamp (recent_rows d))"
proof -
  have "sorted (map (\<lambda>r. - history_timestamp r) (sort_key (\<lambda>r. - history_timestamp r) (history d)))"
    by (rule sorted_sort_key)
  then have "sorted (map (\<lambda>r. - history_timestamp r) (recent_rows d))"
    unfolding recent_rows_def by (simp add: take_map[symmetric] sorted_wrt_take)
  then show ?thesis
    by (simp add: sorted_wrt_map)
qed

lemma validated_sorted:
  "sorted_wrt (\<lambda>x y. x \<ge> y)
     (map entry_timestamp (validateHistoryEntries (map row_to_entry (recent_rows d))))"
proof -
  have "sorted_wrt (\<lambda>a b. history_timestamp a \<ge> history_timestamp b) (recent_rows d)"
    using recent_rows_sorted[of d] by (simp add: sorted_wrt_map)
  then have "sorted_wrt (\<lambda>a b. entry_timestamp a \<ge> entry_timestamp b) (map row_to_entry (recent_rows d))"
    by (simp add: sorted_wrt_map row_to_entry_def)
  then have "sorted_wrt (\<lambda>a b. entry_timestamp a \<ge> entry_timestamp b)
      (filter isHistoryEntry (map row_to_entry (recent_rows d)))"
    by (rule sorted_wrt_filter)
  then show ?thesis by (simp add: sorted_wrt_map validateHistoryEntries_def)
qed

lemma validated_length:
  "length (validateHistoryEntries (map row_to_entry (recent_rows d))) \<le> 1000"
proof -
  have "length (validateHistoryEntries (map row_to_entry (recent_rows d))) \<le> length (recent_rows d)"
    unfolding validateHistoryEntries_def
    by (metis length_filter_le length_map)
  also have "\<dots> \<le> 1000" by (simp add: recent_rows_def)
  finally show ?thesis .
qed

lemma validated_recent:
  assumes "r \<in> set (history d)" "isHistoryEntry (row_to_entry r)"
    "e \<in> set (validateHistoryEntries (map row_to_entry (recent_rows d)))"
    "entry_timestamp e < history_timestamp r"
  shows "row_to_entry r \<in> set (validateHistoryEntries (map row_to_entry (recent_rows d)))"
proof -
  from assms(3) obtain r' where r': "r' \<in> set (recent_rows d)" "e = row_to_entry r'"
    by (auto simp: validateHistoryEntries_def)
  let ?f = "\<lambda>r. - history_timestamp r"
  have "r \<in> set (take 1000 (sort_key ?f (history d)))"
  proof (rule sorted_take_earlier[where f = ?f and y = r'])
    show "sorted (map ?f (sort_key ?f (history d)))" by (rule sorted_sort_key)
    show "r' \<in> set (take 1000 (sort_key ?f (history d)))" using r'(1) by (simp add: recent_rows_def)
    show "r \<in> set (sort_key ?f (history d))" using assms(1) by simp
    show "?f r < ?f r'" using assms(4) r'(2) by (simp add: row_to_entry_def)
  qed
  then have "r \<in> set (recent_rows d)" by (simp add: recent_rows_def)
  with assms(2) show ?thesis by (simp add: validateHistoryEntries_def)
qed

lemma validated_all:
  assumes "\<forall>r\<in>set (history d). history_visit_count r \<noteq> None"
  shows "length (validateHistoryEntries (map row_to_entry (recent_rows d))) = min 1000 (length (history d))"
proof -
  have "set (recent_rows d) \<subseteq> set (history d)"
    unfolding recent_rows_def by (metis set_take_subset set_sort)
  with assms have "\<forall>r\<in>set (recent_rows d). isHistoryEntry (row_to_entry r)"
    by (auto simp: isHistoryEntry_def row_to_entry_def)
  then have "filter isHistoryEntry (map row_to_entry (recent_rows d)) = map row_to_entry (recent_rows d)"
    by (simp add: filter_id_conv)
  then show ?thesis by (simp add: validateHistoryEntries_def recent_rows_def min.commute)
qed

text \<open>
  Claim C10. On an initialised store \<open>getHistory\<close> returns a list of at most 1000 entries whose
  timestamps are in descending order. A row that passes the type guard and is more recent
  than some returned entry is itself returned, so what is left out is what is oldest. When
  no statement fails and every row has a visit count, the list has \<open>min 1000 n\<close> entries for
  a table of \<open>n\<close> rows.
\<close>

theorem getHistory_most_recent_1000:
  "\<exists>es. fst (getHistory (Some d)) = Inr es \<and> length es \<le> 1000 \<and>
      sorted_wrt (\<lambda>x y. x \<ge> y) (map entry_timestamp es) \<and>
      (\<forall>r\<in>set (history d). isHistoryEntry (row_to_entry r) \<and>
          (\<exists>e\<in>set es. entry_timestamp e < history_timestamp r) \<longrightarrow> row_to_entry r \<in> set es) \<and>
      (fault_after d = None \<and> (\<forall>r\<in>set (history d). history_visit_count r \<noteq> None) \<longrightarrow>
          length es = min 1000 (length (history d)))"
proof (cases "fst (getHistory (Some d)) = Inr (validateHistoryEntries (map row_to_entry (recent_rows d)))")
  case True
  show ?thesis
  proof (intro exI conjI)
    show "fst (getHistory (Some d)) = Inr (validateHistoryEntries (map row_to_entry (recent_rows d)))"
      by (rule True)
  qed (use validated_length validated_sorted validated_recent validated_all in blast)+
next
  case False
  then have empty: "fst (getHistory (Some d)) = Inr []" using getHistory_result[of d] by blast
  have "fault_after d \<noteq> None" using False getHistory_healthy by blast
  with empty show ?thesis by auto
qed

theorem getHistory_most_recent_1000_witness:
  "(\<exists>es. fst (getHistory (Some small_history)) = Inr es \<and> length es \<le> 1000 \<and>
      map entry_timestamp es = [20, 10] \<and> map entry_id es = [3, 1]) \<and>
   (\<exists>es. fst (getHistory (Some valid_history)) = Inr es \<and> length es = 3 \<and>
      map entry_timestamp es = [30, 20, 10])"
  using getHistory_most_recent_1000[of small_history] getHistory_most_recent_1000[of valid_history]
  by (simp add: small_history_def valid_history_def getHistory_def with_db_def statement_def
      validateHistoryEntries_def isHistoryEntry_def row_to_entry_def or_null_def)

subsection \<open>Saved snaps: round trip\<close>

lemma insert_tabs_ok:
  "fault_after d = None \<Longrightarrow> distinct (map ts_id snaps) \<Longrightarrow>
   set (map ts_id snaps) \<inter> set (map tab_id (open_tabs d)) = {} \<Longrightarrow>
   insert_tabs snaps d = (Inr (), d\<lparr>open_tabs := open_tabs d @ map tab_to_row snaps\<rparr>)"
proof (induction snaps arbitrary: d)
  case Nil
  then show ?case by simp
next
  case (Cons tab rest)
  let ?d1 = "d\<lparr>open_tabs := open_tabs d @ [tab_to_row tab]\<rparr>"
  have one: "insert_tab tab d = (Inr (), ?d1)"
    using Cons.prems by (simp add: insert_tab_def statement_ok tab_to_row_def)
  have "insert_tabs rest ?d1 = (Inr (), ?d1\<lparr>open_tabs := open_tabs ?d1 @ map tab_to_row rest\<rparr>)"
    using Cons.prems by (intro Cons.IH) (auto simp: tab_to_row_def)
  with one show ?case by simp
qed

lemma saveTabsState_ok:
  assumes "fault_after d = None" "distinct (map ts_id snaps)"
  shows "saveTabsState snaps (Some d) = (Inr (), Some (d\<lparr>open_tabs := map tab_to_row snaps\<rparr>))"
proof -
  have "insert_tabs snaps (d\<lparr>open_tabs := []\<rparr>) =
      (Inr (), d\<lparr>open_tabs := []\<rparr>\<lparr>open_tabs := open_tabs (d\<lparr>open_tabs := []\<rparr>) @ map tab_to_row snaps\<rparr>)"
    using assms by (intro insert_tabs_ok) simp_all
  then show ?thesis
    using assms(1) by (simp add: saveTabsState_def with_db_def statement_ok insertMany_def)
qed

lemma getTabsState_ok:
  "fault_after d = None \<Longrightarrow>
   getTabsState (Some d) = (Inr (map row_to_tab_state (sort_key tab_position (open_tabs d))), Some d)"
  by (simp add: getTabsState_def with_db_def statement_ok)

lemma snapshot_roundtrip: "snapshot (row_to_tab_state (tab_to_row tab)) = snapshot tab"
  by (simp add: snapshot_def row_to_tab_state_def tab_to_row_def)

lemma roundtrip_favicon:
  "row_to_tab_state (tab_to_row tab) = tab\<lparr>ts_favicon := or_null (ts_favicon tab)\<rparr>"
  by (simp add: row_to_tab_state_def tab_to_row_def)

lemma sorted_positions:
  assumes "distinct (map f xs)" "set (map f xs) = int ` {0..<length xs}"
  shows "map f (sort_key f xs) = map int [0..<length xs]"
proof (rule sorted_distinct_set_unique)
  show "sorted (map f (sort_key f xs))" by simp
  have "distinct (sort_key f xs)" "inj_on f (set (sort_key f xs))"
    using assms(1) by (simp_all add: distinct_map)
  then show "distinct (map f (sort_key f xs))" by (simp add: distinct_map)
  show "sorted (map int [0..<length xs])" by (simp add: sorted_map sorted_wrt_iff_nth_less)
  show "distinct (map int [0..<length xs])" by (simp add: distinct_map inj_on_def)
  show "set (map f (sort_key f xs)) = set (map int [0..<length xs])"
    using assms(2) by simp
qed

text \<open>
  Claim C7. Let no statement fail, and let the snapshots have distinct ids, positions that are exactly
  \<open>0, \<dots>, n - 1\<close> in some order, and one snapshot marked active. Then \<open>saveTabsState\<close>
  succeeds, and \<open>getTabsState\<close> on the resulting store returns \<open>n\<close> records with the same
  set of (id, url, title, active, position), one of them active, in the order of their
  positions.
\<close>

theorem tabs_state_roundtrip:
  assumes "fault_after d = None"
    and "distinct (map ts_id snaps)"
    and "distinct (map ts_position snaps)"
    and "set (map ts_position snaps) = int ` {0..<length snaps}"
    and "length (filter ts_active snaps) = 1"
  shows "\<exists>d1 got. saveTabsState snaps (Some d) = (Inr (), Some d1) \<and>
           getTabsState (Some d1) = (Inr got, Some d1) \<and>
           length got = length snaps \<and>
           set (map snapshot got) = set (map snapshot snaps) \<and>
           length (filter ts_active got) = 1 \<and>
           map ts_position got = map int [0..<length snaps]"
proof -
  let ?d1 = "d\<lparr>open_tabs := map tab_to_row snaps\<rparr>"
  let ?rows = "sort_key tab_position (map tab_to_row snaps)"
  let ?got = "map row_to_tab_state ?rows"
  have save: "saveTabsState snaps (Some d) = (Inr (), Some ?d1)"
    using assms(1,2) by (rule saveTabsState_ok)
  have get: "getTabsState (Some ?d1) = (Inr ?got, Some ?d1)"
    using assms(1) by (simp add: getTabsState_ok)
  have len: "length ?got = length snaps" by simp
  have "set (map snapshot ?got) = (snapshot \<circ> row_to_tab_state \<circ> tab_to_row) ` set snaps"
    by (simp add: image_comp)
  also have "\<dots> = snapshot ` set snaps"
    by (rule image_cong) (simp_all add: snapshot_roundtrip)
  finally have snaps: "set (map snapshot ?got) = set (map snapshot snaps)" by simp
  have "length (filter ts_active ?got) = length (filter (\<lambda>r. tab_active r = 1) ?rows)"
    by (simp add: filter_map o_def row_to_tab_state_def)
  also have "\<dots> = length (filter (\<lambda>r. tab_active r = 1) (map tab_to_row snaps))"
    by (metis filter_sort length_sort)
  also have "\<dots> = length (filter ts_active snaps)"
    by (simp add: filter_map o_def tab_to_row_def)
  finally have act: "length (filter ts_active ?got) = 1" using assms(5) by simp
  have "map ts_position ?got = map tab_position ?rows"
    by (simp add: row_to_tab_state_def)
  also have "\<dots> = map int [0..<length (map tab_to_row snaps)]"
  proof (rule sorted_positions)
    show "distinct (map tab_position (map tab_to_row snaps))"
      using assms(3) by (simp add: tab_to_row_def o_def)
    show "set (map tab_position (map tab_to_row snaps)) = int ` {0..<length (map tab_to_row snaps)}"
      using assms(4) by (simp add: tab_to_row_def o_def)
  qed
  finally have pos: "map ts_position ?got = map int [0..<length snaps]" by simp
  from save get len snaps act pos show ?thesis by blast
qed

theorem tabs_state_roundtrip_witness:
  "\<exists>d1 got. saveTabsState [tab_a, tab_b] (Some saved_db) = (Inr (), Some d1) \<and>
       getTabsState (Some d1) = (Inr got, Some d1) \<and>
       length got = 2 \<and>
       set (map snapshot got) = {snapshot tab_a, snapshot tab_b} \<and>
       length (filter ts_active got) = 1 \<and>
       map ts_position got = [0, 1]"
proof -
  have h1: "fault_after saved_db = None" by (simp add: saved_db_def)
  have h2: "distinct (map ts_id [tab_a, tab_b])" by (simp add: tab_a_def tab_b_def)
  have h3: "distinct (map ts_position [tab_a, tab_b])" by (simp add: tab_a_def tab_b_def)
  have "int ` {0..<2} = {0, 1}" by auto
  then have h4: "set (map ts_position [tab_a, tab_b]) = int ` {0..<length [tab_a, tab_b]}"
    by (auto simp: tab_a_def tab_b_def)
  have h5: "length (filter ts_active [tab_a, tab_b]) = 1" by (simp add: tab_a_def tab_b_def)
  show ?thesis using tabs_state_roundtrip[OF h1 h2 h3 h4 h5] by (simp add: numeral_2_eq_2)
qed

subsection \<open>Saved tabs: the replace is not atomic\<close>

text \<open>
  Claim C3. The claim is that a failing \<open>saveTabsState\<close> leaves the prior snapshot set intact. The code
  runs the DELETE before the transaction of the inserts. With a store that holds one saved
  tab: when the driver fails at the second insert, and when two snapshots share an id, the
  call raises and the table is empty.
\<close>

theorem saveTabsState_not_atomic:
  "saveTabsState [tab_a, tab_b] (Some (saved_db\<lparr>fault_after := Some 2\<rparr>)) =
     (Inl (SqliteError ''disk I/O error''), Some (saved_db\<lparr>open_tabs := [], fault_after := Some 0\<rparr>)) \<and>
   saveTabsState [tab_a, tab_a] (Some saved_db) =
     (Inl (SqliteError ''UNIQUE constraint failed: open_tabs.id''), Some (saved_db\<lparr>open_tabs := []\<rparr>)) \<and>
   open_tabs saved_db \<noteq> []"
  by (simp add: saveTabsState_def with_db_def insertMany_def insert_tab_def statement_def
      saved_db_def tab_a_def tab_b_def)

subsection \<open>Bookmarks: positions after a removal\<close>

text \<open>
  Claim C5. The claim is that sibling positions are pairwise unique. \<open>addBookmark\<close> takes the number
  of siblings as the position: after \<open>a\<close> and \<open>b\<close> are added at the root and \<open>a\<close> is
  removed, the new bookmark \<open>c\<close> receives position 1, which \<open>b\<close> holds.
\<close>

theorem bookmark_positions_collide:
  "sibling_positions None bookmarks_ab = [(''a'', 0), (''b'', 1)] \<and>
   sibling_positions None bookmarks_bc = [(''b'', 1), (''c'', 1)]"
  by (simp add: sibling_positions_def bookmarks_bc_def bookmarks_ab_def addBookmark_def
      removeBookmark_def with_db_def statement_def initDatabase_def or_null_def Let_def)

subsection \<open>Downloads: the persisted terminal state\<close>

text \<open>
  A download that has received all of its 1000 bytes and is reported \<open>cancelled\<close> is
  persisted as \<open>failed\<close>, not as \<open>cancelled\<close>.
\<close>

theorem cancelled_download_persisted_as_failed:
  "received_of ''d1'' full_download = [(1000, 1000)] \<and>
   persisted_state ''d1'' (fst (on_done ''d1'' ''cancelled'' ''/tmp/file.zip'' full_download)) = [''failed''] \<and>
   persisted_state ''d1'' (fst (on_done ''d1'' ''cancelled'' ''/tmp/file.zip'' full_download)) \<noteq> [''cancelled'']"
  by (simp add: received_of_def persisted_state_def full_download_def on_done_def on_updated_def
      on_will_download_def addDownload_def updateDownloadProgress_def updateDownloadState_def
      finalState_def with_db_def statement_def initDatabase_def)

lemma updateDownloadState_ok:
  "fault_after d = None \<Longrightarrow>
   updateDownloadState ident state path (Some d) =
     (Inr (), Some (d\<lparr>downloads :=
        map (\<lambda>r. if download_id r = ident
                  then r\<lparr>download_state := state, download_savePath := path\<rparr> else r)
          (downloads d)\<rparr>))"
  by (simp add: updateDownloadState_def with_db_def statement_def)

text \<open>
  Claim C2. (amended) When no statement fails and the download has a row, the state that the
  completion handler persists is \<open>completed\<close> if the host reports \<open>completed\<close>, and
  \<open>failed\<close> for every other report, \<open>cancelled\<close> included, whatever share of its bytes
  the download has received.
\<close>

theorem on_done_persists_final_state:
  "fault_after d = None \<and> ident \<in> set (map download_id (downloads d)) \<longrightarrow>
     set (persisted_state ident (fst (on_done ident state path (Some d)))) =
       {if state = ''completed'' then ''completed'' else ''failed''}"
proof
  assume h: "fault_after d = None \<and> ident \<in> set (map download_id (downloads d))"
  let ?upd = "\<lambda>r. if download_id r = ident
                  then r\<lparr>download_state := finalState state, download_savePath := path\<rparr> else r"
  have res: "fst (on_done ident state path (Some d)) = Some (d\<lparr>downloads := map ?upd (downloads d)\<rparr>)"
    using h by (simp add: on_done_def updateDownloadState_ok)
  have "\<And>rows. map download_state (filter (\<lambda>r. download_id r = ident) (map ?upd rows)) =
      map (\<lambda>r. finalState state) (filter (\<lambda>r. download_id r = ident) rows)"
  proof -
    fix rows show "map download_state (filter (\<lambda>r. download_id r = ident) (map ?upd rows)) =
      map (\<lambda>r. finalState state) (filter (\<lambda>r. download_id r = ident) rows)"
      by (induction rows) auto
  qed
  then have "persisted_state ident (fst (on_done ident state path (Some d))) =
      map (\<lambda>r. finalState state) (filter (\<lambda>r. download_id r = ident) (downloads d))"
    by (simp add: res persisted_state_def)
  moreover have "filter (\<lambda>r. download_id r = ident) (downloads d) \<noteq> []"
    using h by (auto simp: filter_empty_conv)
  ultimately have "set (persisted_state ident (fst (on_done ident state path (Some d)))) = {finalState state}"
    by (cases "filter (\<lambda>r. download_id r = ident) (downloads d)") auto
  then show "set (persisted_state ident (fst (on_done ident state path (Some d)))) =
       {if state = ''completed'' then ''completed'' else ''failed''}"
    by (simp add: finalState_def)
qed

theorem on_done_persists_final_state_witness:
  "set (persisted_state ''d1'' (fst (on_done ''d1'' ''cancelled'' ''/tmp/file.zip'' full_download))) = {''failed''} \<and>
   set (persisted_state ''d1'' (fst (on_done ''d1'' ''completed'' ''/tmp/file.zip'' full_download))) = {''completed''}"
proof -
  have fd: "full_download = Some \<lparr>history = [], history_seq = 0, open_tabs = [], bookmarks = [],
     settings = [],
     downloads =
       [\<lparr>download_id = ''d1'', download_filename = ''file.zip'',
           download_savePath = ''/tmp/file.zip'',
           download_totalBytes = 1000, download_receivedBytes = 1000,
           download_state = ''downloading'', download_timestamp = 5\<rparr>],
     fault_after = None\<rparr>"
    by (simp add: full_download_def on_updated_def
      on_will_download_def addDownload_def updateDownloadProgress_def
      with_db_def statement_def initDatabase_def)
  show ?thesis
    using on_done_persists_final_state[of "the full_download" "''d1''" "''cancelled''" "''/tmp/file.zip''"]
      on_done_persists_final_state[of "the full_download" "''d1''" "''completed''" "''/tmp/file.zip''"]
    by (simp add: fd)
qed

subsection \<open>Settings: a failed write is reported as success\<close>

text \<open>
  Claim C8. The claim is that a failed write of a user's command is never reported as success. On a
  store whose statements fail, \<open>setSetting\<close> returns \<open>false\<close>; the handler of
  \<open>settings:set\<close> drops that result and returns \<open>true\<close>. The handler of \<open>history:clear\<close>
  on the same store raises.
\<close>

theorem settings_set_hides_write_failure:
  "fst (setSetting ''searchEngine'' ''brave'' (initDatabase (Some 0))) = Inr False \<and>
   settings_set ''searchEngine'' ''brave'' (initDatabase (Some 0)) = (Inr True, initDatabase (Some 0)) \<and>
   fst (history_clear (initDatabase (Some 0))) = Inl (SqliteError ''disk I/O error'')"
  by (simp add: settings_set_def setSetting_def history_clear_def clearHistory_def with_db_def
      statement_def initDatabase_def isValidSettingKey_def trim_def is_space_def is_letter_def
      is_digit_def code_def Let_def)

subsection \<open>Tabs: the set is never empty\<close>

lemma map_has_map_of: "map_has m k \<Longrightarrow> \<exists>v. map_of m k = Some v"
  by (induction m) (auto simp: map_has_def)

lemma active_is_open_iff:
  "active_is_open s =
     (tabs s = [] \<or> (\<exists>ident. activeTabId s = Some ident \<and> map_has (tabs s) ident))"
  by (auto simp: active_is_open_def split: option.splits)

lemma switchToTab_tabs: "tabs (switchToTab ident s) = tabs s"
  by (simp add: switchToTab_def split: option.splits)

lemma switchToTab_known:
  assumes "map_has (tabs s) ident"
  obtains v where "map_of (tabs s) ident = Some v"
    and "switchToTab ident s = s\<lparr>activeTabId := Some ident,
               sent := sent s @ [TabSwitched ident (view_url v)],
               immediates := immediates s @ [SendFindRestoreState]\<rparr>"
proof -
  from map_has_map_of[OF assms] obtain v where v: "map_of (tabs s) ident = Some v" ..
  with assms have "switchToTab ident s = s\<lparr>activeTabId := Some ident,
               sent := sent s @ [TabSwitched ident (view_url v)],
               immediates := immediates s @ [SendFindRestoreState]\<rparr>"
    by (simp add: switchToTab_def)
  with v show thesis by (rule that)
qed

lemma switchToTab_active: "map_has (tabs s) ident \<Longrightarrow> activeTabId (switchToTab ident s) = Some ident"
  by (erule switchToTab_known) simp

lemma switchToTab_unknown: "\<not> map_has (tabs s) ident \<Longrightarrow> switchToTab ident s = s"
  by (simp add: switchToTab_def)

lemma switchToTab_keeps: "active_is_open s \<Longrightarrow> active_is_open (switchToTab ident s)"
proof (cases "map_has (tabs s) ident")
  case True
  then show ?thesis
    by (simp add: active_is_open_iff switchToTab_tabs switchToTab_active)
next
  case False
  assume "active_is_open s"
  with False show ?thesis by (simp add: switchToTab_unknown)
qed

lemma map_has_map_set: "map_has (map_set k v m) k"
  by (auto simp: map_has_def map_set_def image_iff split: prod.splits)

lemma map_set_nonempty: "map_set k v m \<noteq> []"
  by (auto simp: map_set_def)

lemma map_has_relabel:
  "map_has (map (\<lambda>(k, v). if k = ident then (k, f v) else (k, v)) m) k' = map_has m k'"
  by (induction m) (auto simp: map_has_def)

lemma createNewTab_tabs:
  "tabs (createNewTab url ident s) \<noteq> [] \<and> map_has (tabs (createNewTab url ident s)) ident \<and>
   activeTabId (createNewTab url ident s) = Some ident"
proof -
  define finalUrl where "finalUrl = (case or_null url of None \<Rightarrow> ''hera://new-tab'' | Some u \<Rightarrow> u)"
  define s1 where "s1 = s\<lparr>tabs := map_set ident \<lparr>view_url = [], view_load = None\<rparr> (tabs s),
                 tabInfo := map_set ident
                   \<lparr>info_url = finalUrl, info_title = initialTitle finalUrl,
                     info_favicon = initialFavicon finalUrl\<rparr> (tabInfo s)\<rparr>"
  have has: "map_has (tabs s1) ident" by (simp add: s1_def map_has_map_set)
  have ne: "tabs s1 \<noteq> []" by (simp add: s1_def map_set_nonempty)
  have act: "activeTabId (switchToTab ident s1) = Some ident" using has by (rule switchToTab_active)
  have t: "tabs (switchToTab ident s1) = tabs s1" by (rule switchToTab_tabs)
  show ?thesis
    using has ne act t
    by (simp add: createNewTab_def Let_def finalUrl_def[symmetric] s1_def[symmetric]
        loadURL_def map_has_relabel)
qed

lemma createNewTab_keeps: "active_is_open (createNewTab url ident s)"
  using createNewTab_tabs[of url ident s] by (auto simp: active_is_open_iff)

lemma map_has_delete: "map_has (map_delete k m) k' = (map_has m k' \<and> k' \<noteq> k)"
  by (induction m) (auto simp: map_has_def map_delete_def)

lemma map_has_nonempty: "map_has m k \<Longrightarrow> m \<noteq> []"
  by (auto simp: map_has_def)

text \<open>The state of \<open>closeTab\<close> before the snapshot is saved.\<close>

lemma closeTab_cases:
  assumes "map_has (tabs s) ident"
  shows "\<exists>s2 db. closeTab ident fresh s = s2\<lparr>database_handle := db\<rparr> \<and>
     (if activeTabId s = Some ident then
        (case map_delete ident (tabs s) of
           (k, v) # rest \<Rightarrow> tabs s2 = map_delete ident (tabs s) \<and> activeTabId s2 = Some k
         | [] \<Rightarrow> s2 = createNewTab None fresh
               (s\<lparr>tabs := [], tabInfo := map_delete ident (tabInfo s),
                    tabFindBarStates := map_delete ident (tabFindBarStates s),
                    sent := sent s @ [TabClosed ident]\<rparr>))
      else tabs s2 = map_delete ident (tabs s) \<and> activeTabId s2 = activeTabId s)"
proof -
  define s1 where "s1 = s\<lparr>tabs := map_delete ident (tabs s),
                    tabInfo := map_delete ident (tabInfo s),
                    tabFindBarStates := map_delete ident (tabFindBarStates s),
                    sent := sent s @ [TabClosed ident]\<rparr>"
  define s2 where "s2 = (if activeTabId s1 = Some ident then
                     (case tabs s1 of
                        (lastTabId, v) # rest \<Rightarrow> switchToTab lastTabId s1
                      | [] \<Rightarrow> createNewTab None fresh s1)
                   else s1)"
  have eq: "closeTab ident fresh s =
      s2\<lparr>database_handle := snd (saveTabsState (tabsArray s2) (database_handle s2))\<rparr>"
    using assms by (simp add: closeTab_def Let_def s1_def[symmetric] s2_def[symmetric])
  have "if activeTabId s = Some ident then
        (case map_delete ident (tabs s) of
           (k, v) # rest \<Rightarrow> tabs s2 = map_delete ident (tabs s) \<and> activeTabId s2 = Some k
         | [] \<Rightarrow> s2 = createNewTab None fresh
               (s\<lparr>tabs := [], tabInfo := map_delete ident (tabInfo s),
                    tabFindBarStates := map_delete ident (tabFindBarStates s),
                    sent := sent s @ [TabClosed ident]\<rparr>))
      else tabs s2 = map_delete ident (tabs s) \<and> activeTabId s2 = activeTabId s"
  proof (cases "activeTabId s = Some ident")
    case False
    then show ?thesis by (simp add: s2_def s1_def)
  next
    case True
    show ?thesis
    proof (cases "map_delete ident (tabs s)")
      case Nil
      with True show ?thesis by (simp add: s2_def s1_def)
    next
      case (Cons kv rest)
      obtain k v where kv: "kv = (k, v)" by (cases kv) auto
      have "map_has (tabs s1) k" by (simp add: s1_def Cons kv map_has_def)
      then have "activeTabId (switchToTab k s1) = Some k" by (rule switchToTab_active)
      moreover have "tabs (switchToTab k s1) = tabs s1" by (rule switchToTab_tabs)
      ultimately show ?thesis using True Cons kv by (simp add: s2_def s1_def)
    qed
  qed
  with eq show ?thesis by blast
qed

lemma closeTab_keeps:
  assumes "active_is_open s"
  shows "active_is_open (closeTab ident fresh s) \<and> (tabs s \<noteq> [] \<longrightarrow> tabs (closeTab ident fresh s) \<noteq> [])"
proof (cases "map_has (tabs s) ident")
  case False
  with assms show ?thesis by (simp add: closeTab_def)
next
  case True
  then obtain s2 db where c: "closeTab ident fresh s = s2\<lparr>database_handle := db\<rparr>"
    and r: "if activeTabId s = Some ident then
        (case map_delete ident (tabs s) of
           (k, v) # rest \<Rightarrow> tabs s2 = map_delete ident (tabs s) \<and> activeTabId s2 = Some k
         | [] \<Rightarrow> s2 = createNewTab None fresh
               (s\<lparr>tabs := [], tabInfo := map_delete ident (tabInfo s),
                    tabFindBarStates := map_delete ident (tabFindBarStates s),
                    sent := sent s @ [TabClosed ident]\<rparr>))
      else tabs s2 = map_delete ident (tabs s) \<and> activeTabId s2 = activeTabId s"
    using closeTab_cases[of s ident fresh] by blast
  have "active_is_open s2 \<and> tabs s2 \<noteq> []"
  proof (cases "activeTabId s = Some ident")
    case False
    from True have "tabs s \<noteq> []" by (rule map_has_nonempty)
    with assms obtain a where a: "activeTabId s = Some a" "map_has (tabs s) a"
      by (auto simp: active_is_open_iff)
    with False have "map_has (map_delete ident (tabs s)) a" by (simp add: map_has_delete)
    with r False a show ?thesis
      by (auto simp: active_is_open_iff dest: map_has_nonempty)
  next
    case act: True
    show ?thesis
    proof (cases "map_delete ident (tabs s)")
      case Nil
      with r act show ?thesis
        using createNewTab_tabs createNewTab_keeps by simp
    next
      case (Cons kv rest)
      obtain k v where kv: "kv = (k, v)" by (cases kv) auto
      with r act Cons have "tabs s2 = (k, v) # rest" "activeTabId s2 = Some k" by simp_all
      then show ?thesis by (simp add: active_is_open_iff map_has_def)
    qed
  qed
  with c show ?thesis by (auto simp: active_is_open_iff)
qed

lemma run_command_keeps:
  "active_is_open s \<Longrightarrow>
   active_is_open (run_command c s) \<and> (tabs s \<noteq> [] \<longrightarrow> tabs (run_command c s) \<noteq> [])"
proof (cases c)
  case (NewTab url ident)
  then show ?thesis using createNewTab_tabs[of url ident s] createNewTab_keeps[of url ident s] by simp
next
  case (SwitchTab ident)
  assume "active_is_open s"
  with SwitchTab show ?thesis by (simp add: switchToTab_keeps switchToTab_tabs)
next
  case (CloseTab ident fresh)
  assume "active_is_open s"
  with CloseTab show ?thesis using closeTab_keeps by simp
qed

lemma run_commands_keeps:
  "active_is_open s \<Longrightarrow>
   active_is_open (run_commands cs s) \<and> (tabs s \<noteq> [] \<longrightarrow> tabs (run_commands cs s) \<noteq> [])"
proof (induction cs arbitrary: s)
  case Nil
  then show ?case by (simp add: run_commands_def)
next
  case (Cons c cs)
  have step: "active_is_open (run_command c s)" "tabs s \<noteq> [] \<longrightarrow> tabs (run_command c s) \<noteq> []"
    using run_command_keeps[OF Cons.prems] by simp_all
  have "run_commands (c # cs) s = run_commands cs (run_command c s)"
    by (simp add: run_commands_def)
  with Cons.IH[OF step(1)] step(2) show ?case by simp
qed

lemma initial_active_is_open: "active_is_open (initial_state db)"
  by (simp add: active_is_open_iff initial_state_def)

lemma map_of_relabel:
  "k \<in> set (map fst m) \<Longrightarrow>
   map_of (map (\<lambda>(k', v'). if k' = k then (k', v) else (k', v')) m) k = Some v"
  by (induction m) auto

lemma map_of_map_set: "map_of (map_set k v m) k = Some v"
proof (cases "k \<in> set (map fst m)")
  case True
  then show ?thesis by (simp add: map_set_def map_of_relabel del: set_map)
next
  case False
  then have "map_of m k = None" by (simp add: map_of_eq_None_iff)
  with False show ?thesis by (simp add: map_set_def map_add_def)
qed

lemma createNewTab_tabInfo:
  "tabInfo (createNewTab url ident s) =
     map_set ident
       \<lparr>info_url = (case or_null url of None \<Rightarrow> ''hera://new-tab'' | Some u \<Rightarrow> u),
         info_title = initialTitle (case or_null url of None \<Rightarrow> ''hera://new-tab'' | Some u \<Rightarrow> u),
         info_favicon = initialFavicon (case or_null url of None \<Rightarrow> ''hera://new-tab'' | Some u \<Rightarrow> u)\<rparr>
       (tabInfo s)"
  by (simp add: createNewTab_def Let_def switchToTab_def loadURL_def split: option.splits)

lemma createNewTab_first:
  assumes "tabs s = []"
  shows "map fst (tabs (createNewTab None fresh s)) = [fresh] \<and>
         map_of (tabInfo (createNewTab None fresh s)) fresh = Some default_tab_info \<and>
         activeTabId (createNewTab None fresh s) = Some fresh"
proof -
  have t: "initialTitle ''hera://new-tab'' = ''Nova Aba''"
    by (simp add: initialTitle_def startsWith_def)
  have f: "initialFavicon ''hera://new-tab'' = Some ''hera://HeraBrowser256x256.png''"
    by (simp add: initialFavicon_def startsWith_def)
  have info: "map_of (tabInfo (createNewTab None fresh s)) fresh = Some default_tab_info"
    by (simp add: createNewTab_tabInfo or_null_def map_of_map_set t f default_tab_info_def)
  have keys: "map fst (tabs (createNewTab None fresh s)) = [fresh]"
    using assms
    by (simp add: createNewTab_def Let_def or_null_def switchToTab_def map_has_def map_set_def
        loadURL_def)
  have act: "activeTabId (createNewTab None fresh s) = Some fresh"
    using createNewTab_tabs by blast
  from keys info act show ?thesis by blast
qed

text \<open>
  Claim C1. In every state the application reaches from its start by creating, switching and closing
  tabs: if the tab set is not empty, it is not empty after any further sequence of these
  commands; and closing the only open tab leaves exactly one tab, the new one, which is
  active and holds the default new-tab page.
\<close>

theorem tab_set_never_empty:
  "(tabs (reached before db) \<noteq> [] \<longrightarrow> tabs (run_commands cs (reached before db)) \<noteq> []) \<and>
   (tabs (reached before db) = [(ident, v)] \<longrightarrow>
      map fst (tabs (closeTab ident fresh (reached before db))) = [fresh] \<and>
      map_of (tabInfo (closeTab ident fresh (reached before db))) fresh = Some default_tab_info \<and>
      activeTabId (closeTab ident fresh (reached before db)) = Some fresh)"
proof (intro conjI impI)
  have inv: "active_is_open (reached before db)"
    unfolding reached_def using run_commands_keeps[OF initial_active_is_open] by blast
  {
    assume "tabs (reached before db) \<noteq> []"
    then show "tabs (run_commands cs (reached before db)) \<noteq> []"
      using run_commands_keeps[OF inv] by blast
  }
  assume one: "tabs (reached before db) = [(ident, v)]"
  let ?s = "reached before db"
  from inv one have act: "activeTabId ?s = Some ident"
    by (auto simp: active_is_open_iff map_has_def)
  have has: "map_has (tabs ?s) ident" using one by (simp add: map_has_def)
  have del: "map_delete ident (tabs ?s) = []" using one by (simp add: map_delete_def)
  let ?s1 = "?s\<lparr>tabs := [], tabInfo := map_delete ident (tabInfo ?s),
                    tabFindBarStates := map_delete ident (tabFindBarStates ?s),
                    sent := sent ?s @ [TabClosed ident]\<rparr>"
  obtain dbh where c: "closeTab ident fresh ?s = (createNewTab None fresh ?s1)\<lparr>database_handle := dbh\<rparr>"
    using closeTab_cases[OF has, of fresh] act del by auto
  have "tabs ?s1 = []" by simp
  then have first: "map fst (tabs (createNewTab None fresh ?s1)) = [fresh] \<and>
         map_of (tabInfo (createNewTab None fresh ?s1)) fresh = Some default_tab_info \<and>
         activeTabId (createNewTab None fresh ?s1) = Some fresh"
    by (rule createNewTab_first)
  show "map fst (tabs (closeTab ident fresh ?s)) = [fresh]" using c first by simp
  show "map_of (tabInfo (closeTab ident fresh ?s)) fresh = Some default_tab_info" using c first by simp
  show "activeTabId (closeTab ident fresh ?s) = Some fresh" using c first by simp
qed

theorem tab_set_never_empty_witness:
  "tabs (reached two_tabs (initDatabase None)) \<noteq> [] \<and>
   tabs (run_commands [CloseTab ''t2'' ''t3'', CloseTab ''t1'' ''t4''] (reached two_tabs (initDatabase None))) \<noteq> [] \<and>
   tabs (reached [NewTab None ''t1''] None) = [(''t1'', \<lparr>view_url = [], view_load = Some (LoadURL ''hera://new-tab'')\<rparr>)] \<and>
   map fst (tabs (closeTab ''t1'' ''t4'' (reached [NewTab None ''t1''] None))) = [''t4'']"
proof -
  have a: "tabs (reached two_tabs (initDatabase None)) \<noteq> []"
    by (simp add: reached_def two_tabs_def run_commands_def createNewTab_tabs)
  have b: "tabs (reached [NewTab None ''t1''] None) =
       [(''t1'', \<lparr>view_url = [], view_load = Some (LoadURL ''hera://new-tab'')\<rparr>)]"
    by (simp add: reached_def run_commands_def createNewTab_def initial_state_def Let_def
        or_null_def switchToTab_def map_has_def map_set_def loadURL_def)
  show ?thesis
    using a b
      tab_set_never_empty[of two_tabs "initDatabase None" "[CloseTab ''t2'' ''t3'', CloseTab ''t1'' ''t4'']"]
      tab_set_never_empty[of "[NewTab None ''t1'']" None _ "''t1''"
         "\<lparr>view_url = [], view_load = Some (LoadURL ''hera://new-tab'')\<rparr>" "''t4''"]
    by simp
qed

text \<open>
  Claim C6. For \<open>switchToTab\<close> on a known id: when the call returns, \<open>tab-switched\<close> for that id is
  the last message sent, the active id is the new one, and the callback that sends
  \<open>find:restore-state\<close> is the last in the queue. When the queue has run, the messages
  sent since the call began are \<open>tab-switched\<close>, then one \<open>find:restore-state\<close> per callback
  queued earlier, then the \<open>find:restore-state\<close> of this switch.
\<close>

theorem switch_notifies_before_restore:
  "map_has (tabs s) ident \<longrightarrow>
     (\<exists>url. sent (switchToTab ident s) = sent s @ [TabSwitched ident url] \<and>
        activeTabId (switchToTab ident s) = Some ident \<and>
        immediates (switchToTab ident s) = immediates s @ [SendFindRestoreState] \<and>
        sent (run_immediates (switchToTab ident s)) =
          sent s @ [TabSwitched ident url] @
          replicate (length (immediates s)) FindRestoreState @ [FindRestoreState])"
proof
  assume has: "map_has (tabs s) ident"
  from has obtain v :: view where v: "switchToTab ident s = s\<lparr>activeTabId := Some ident,
               sent := sent s @ [TabSwitched ident (view_url v)],
               immediates := immediates s @ [SendFindRestoreState]\<rparr>"
    by (rule switchToTab_known)
  have run: "\<And>ts u. sent (fold run_task ts u) = sent u @ replicate (length ts) FindRestoreState"
  proof -
    fix ts u show "sent (fold run_task ts u) = sent u @ replicate (length ts) FindRestoreState"
    proof (induction ts arbitrary: u)
      case Nil
      then show ?case by simp
    next
      case (Cons t ts)
      then show ?case by (cases t) (simp add: replicate_app_Cons_same)
    qed
  qed
  have "sent (run_immediates (switchToTab ident s)) =
          sent s @ [TabSwitched ident (view_url v)] @
          replicate (length (immediates s)) FindRestoreState @ [FindRestoreState]"
    by (simp add: v run_immediates_def run replicate_append_same)
  with v show "\<exists>url. sent (switchToTab ident s) = sent s @ [TabSwitched ident url] \<and>
        activeTabId (switchToTab ident s) = Some ident \<and>
        immediates (switchToTab ident s) = immediates s @ [SendFindRestoreState] \<and>
        sent (run_immediates (switchToTab ident s)) =
          sent s @ [TabSwitched ident url] @
          replicate (length (immediates s)) FindRestoreState @ [FindRestoreState]"
    by simp
qed

theorem switch_notifies_before_restore_witness:
  "map_has (tabs (reached two_tabs None)) ''t1'' \<and>
   sent (run_immediates (switchToTab ''t1'' (reached two_tabs None))) =
     sent (reached two_tabs None) @
       [TabSwitched ''t1'' [], FindRestoreState, FindRestoreState, FindRestoreState]"
proof -
  have s: "reached two_tabs None =
     \<lparr>tabs = [(''t1'', \<lparr>view_url = [], view_load = Some (LoadURL ''hera://new-tab'')\<rparr>),
              (''t2'', \<lparr>view_url = [], view_load = Some (LoadURL ''https://a.org/'')\<rparr>)],
      tabInfo = [(''t1'', default_tab_info),
                 (''t2'', \<lparr>info_url = ''https://a.org/'', info_title = ''Nova Aba'', info_favicon = None\<rparr>)],
      tabFindBarStates = [], activeTabId = Some ''t2'',
      sent = [TabSwitched ''t1'' [],
              TabCreated ''t1'' ''Nova Aba'' ''hera://new-tab'' (Some ''hera://HeraBrowser256x256.png''),
              TabSwitched ''t2'' [],
              TabCreated ''t2'' ''Nova Aba'' ''https://a.org/'' None],
      immediates = [SendFindRestoreState, SendFindRestoreState],
      database_handle = None\<rparr>"
    by (simp add: reached_def two_tabs_def run_commands_def createNewTab_def initial_state_def
        Let_def or_null_def switchToTab_def map_has_def map_set_def initialTitle_def
        initialFavicon_def startsWith_def default_tab_info_def loadURL_def)
  have has: "map_has (tabs (reached two_tabs None)) ''t1''"
    by (simp add: s map_has_def)
  show ?thesis
    using has switch_notifies_before_restore[of "reached two_tabs None" "''t1''"]
    by (auto simp: s switchToTab_def map_has_def run_immediates_def)
qed

subsection \<open>The navigate-or-search heuristic\<close>

lemma nullable_lang: "nullable r \<longleftrightarrow> [] \<in> lang r"
  by (induction r) (auto intro: star_nil)

lemma star_uncons:
  "x \<in> star L \<Longrightarrow> x = c # w \<Longrightarrow> \<exists>u v. w = u @ v \<and> c # u \<in> L \<and> v \<in> star L"
proof (induction x arbitrary: w rule: star.induct)
  case star_nil
  then show ?case by simp
next
  case (star_step u v)
  show ?case
  proof (cases u)
    case Nil
    with star_step show ?thesis by simp
  next
    case (Cons a u')
    with star_step.prems have "a = c" "w = u' @ v" by simp_all
    with star_step.hyps(1,2) Cons show ?thesis by blast
  qed
qed

lemma star_cons:
  "c # w \<in> star L \<longleftrightarrow> (\<exists>u v. w = u @ v \<and> c # u \<in> L \<and> v \<in> star L)"
proof
  assume "c # w \<in> star L"
  then show "\<exists>u v. w = u @ v \<and> c # u \<in> L \<and> v \<in> star L"
    by (rule star_uncons) simp
next
  assume "\<exists>u v. w = u @ v \<and> c # u \<in> L \<and> v \<in> star L"
  then obtain u v where "w = u @ v" "c # u \<in> L" "v \<in> star L" by blast
  then have "(c # u) @ v \<in> star L" by (intro star_step)
  with \<open>w = u @ v\<close> show "c # w \<in> star L" by simp
qed

lemma lang_ThenI: "u \<in> lang a \<Longrightarrow> v \<in> lang b \<Longrightarrow> w = u @ v \<Longrightarrow> w \<in> lang (Then a b)"
  by auto

lemma lang_deriv: "w \<in> lang (deriv c r) \<longleftrightarrow> c # w \<in> lang r"
proof (induction r arbitrary: w)
  case (Then a b)
  show ?case
  proof
    assume "w \<in> lang (deriv c (Then a b))"
    then consider u v where "w = u @ v" "u \<in> lang (deriv c a)" "v \<in> lang b"
      | "nullable a" "w \<in> lang (deriv c b)"
      by (auto split: if_splits)
    then show "c # w \<in> lang (Then a b)"
    proof cases
      case 1
      then have "c # u \<in> lang a" using Then.IH(1) by simp
      then show ?thesis using 1(3) by (rule lang_ThenI) (simp add: 1(1))
    next
      case 2
      then have "[] \<in> lang a" "c # w \<in> lang b" using Then.IH(2) nullable_lang by simp_all
      then show ?thesis by (rule lang_ThenI) simp
    qed
  next
    assume "c # w \<in> lang (Then a b)"
    then obtain u v where uv: "c # w = u @ v" "u \<in> lang a" "v \<in> lang b" by auto
    show "w \<in> lang (deriv c (Then a b))"
    proof (cases u)
      case Nil
      with uv have "nullable a" "w \<in> lang (deriv c b)"
        using Then.IH(2) nullable_lang by simp_all
      then show ?thesis by simp
    next
      case (Cons x u')
      with uv have "x = c" "w = u' @ v" by simp_all
      with uv(2,3) Cons have "u' \<in> lang (deriv c a)" using Then.IH(1) by simp
      with \<open>w = u' @ v\<close> uv(3) show ?thesis by auto
    qed
  qed
next
  case (Many a)
  have "w \<in> lang (deriv c (Many a)) \<longleftrightarrow> (\<exists>u v. w = u @ v \<and> c # u \<in> lang a \<and> v \<in> star (lang a))"
    using Many.IH by auto
  then show ?case by (simp add: star_cons)
qed auto

lemma matches_lang: "matches r s \<longleftrightarrow> s \<in> lang r"
proof -
  have "nullable (fold deriv s r) \<longleftrightarrow> s \<in> lang r"
  proof (induction s arbitrary: r)
    case Nil
    then show ?case by (simp add: nullable_lang)
  next
    case (Cons c s)
    then show ?case by (simp add: lang_deriv)
  qed
  then show ?thesis by (simp add: matches_def)
qed

lemma found_at_start_iff: "found_at_start r s \<longleftrightarrow> (\<exists>w v. s = w @ v \<and> w \<in> lang r)"
  by (auto simp: found_at_start_def list_ex_iff matches_lang prefix_def)

lemma found_iff: "found r s \<longleftrightarrow> (\<exists>u w v. s = u @ w @ v \<and> w \<in> lang r)"
proof -
  have "found r s \<longleftrightarrow> (\<exists>x\<in>set (suffixes s). \<exists>w v. x = w @ v \<and> w \<in> lang r)"
    by (simp add: found_def list_ex_iff found_at_start_iff)
  also have "\<dots> \<longleftrightarrow> (\<exists>x. suffix x s \<and> (\<exists>w v. x = w @ v \<and> w \<in> lang r))"
    by (simp add: Bex_def)
  also have "\<dots> \<longleftrightarrow> (\<exists>u w v. s = u @ w @ v \<and> w \<in> lang r)"
    unfolding suffix_def by blast
  finally show ?thesis .
qed

lemma lang_lit: "lang (lit w) = {w}"
  by (induction w) auto

lemma startsWith_iff: "startsWith s p \<longleftrightarrow> (\<exists>v. s = p @ v)"
  unfolding startsWith_def by (metis append_eq_conv_conj append_take_drop_id)

lemma includes_str_iff: "includes_str s p \<longleftrightarrow> (\<exists>u v. s = u @ p @ v)"
proof (induction s)
  case Nil
  then show ?case by auto
next
  case (Cons c s)
  show ?case
  proof
    assume "includes_str (c # s) p"
    then consider "startsWith (c # s) p" | "includes_str s p" by auto
    then show "\<exists>u v. c # s = u @ p @ v"
    proof cases
      case 1
      then obtain v where "c # s = p @ v" by (auto simp: startsWith_iff)
      then have "c # s = [] @ p @ v" by simp
      then show ?thesis by blast
    next
      case 2
      then obtain u v where "s = u @ p @ v" using Cons.IH by blast
      then have "c # s = (c # u) @ p @ v" by simp
      then show ?thesis by blast
    qed
  next
    assume "\<exists>u v. c # s = u @ p @ v"
    then obtain u v where uv: "c # s = u @ p @ v" by blast
    show "includes_str (c # s) p"
    proof (cases u)
      case Nil
      with uv have "startsWith (c # s) p" by (auto simp: startsWith_iff)
      then show ?thesis by simp
    next
      case (Cons a u')
      with uv have "s = u' @ p @ v" by simp
      then have "includes_str s p" using Cons.IH by blast
      then show ?thesis by simp
    qed
  qed
qed

lemma lang_scheme_re: "lang scheme_re = {''http://'', ''https://''}"
  by (auto simp: scheme_re_def opt_def lang_lit)

lemma found_at_start_starts: "found_at_start r s \<longleftrightarrow> (\<exists>w\<in>lang r. startsWith s w)"
  unfolding found_at_start_iff startsWith_iff by blast

lemma found_scheme: "found_at_start scheme_re s \<longleftrightarrow> startsWith s ''http://'' \<or> startsWith s ''https://''"
  by (simp add: found_at_start_starts lang_scheme_re)

lemma found_localhost: "found localhost_re s \<longleftrightarrow> includes_str s ''localhost''"
  by (simp add: found_iff localhost_re_def lang_lit includes_str_iff)

lemma lang_ThenE:
  assumes "w \<in> lang (Then a b)"
  obtains u v where "w = u @ v" "u \<in> lang a" "v \<in> lang b"
  using assms by auto

lemma star_class_chars: "w \<in> star {[c] | c. P c} \<Longrightarrow> \<forall>c\<in>set w. P c"
  by (induction w rule: star.induct) auto

lemma lang_some_class:
  assumes "w \<in> lang (some (Class P))"
  shows "w \<noteq> [] \<and> (\<forall>c\<in>set w. P c)"
proof -
  from assms obtain c rest where "w = [c] @ rest" "P c" "rest \<in> star {[c] | c. P c}"
    by (auto simp: some_def)
  then show ?thesis using star_class_chars[of rest P] by auto
qed

lemma label_group_ends:
  assumes "x \<in> lang (Then (some (Class label_char)) (lit ''.''))"
  shows "\<exists>pre c. x = pre @ [c, CHR ''.''] \<and> label_char c"
proof -
  from assms obtain a where a: "x = a @ ''.''" "a \<in> lang (some (Class label_char))"
    by (auto simp: lang_lit)
  then have "a \<noteq> []" "label_char (last a)"
    using lang_some_class[of a label_char] by auto
  then have "x = butlast a @ [last a, CHR ''.''] \<and> label_char (last a)"
    using a(1) by simp
  then show ?thesis by blast
qed

lemma ends_with_label_dot_append:
  "\<exists>pre c. v = pre @ [c, CHR ''.''] \<and> label_char c \<Longrightarrow>
   \<exists>pre c. u @ v = pre @ [c, CHR ''.''] \<and> label_char c"
  by (metis append_assoc)

lemma star_label_groups_end:
  "x \<in> star (lang (Then (some (Class label_char)) (lit ''.''))) \<Longrightarrow>
   x = [] \<or> (\<exists>pre c. x = pre @ [c, CHR ''.''] \<and> label_char c)"
proof (induction x rule: star.induct)
  case star_nil
  then show ?case by simp
next
  case (star_step u v)
  show ?case
  proof (cases "v = []")
    case True
    with label_group_ends[OF star_step.hyps(1)] show ?thesis by simp
  next
    case False
    with star_step.IH have "\<exists>pre c. v = pre @ [c, CHR ''.''] \<and> label_char c" by simp
    then have "\<exists>pre c. u @ v = pre @ [c, CHR ''.''] \<and> label_char c"
      by (rule ends_with_label_dot_append)
    then show ?thesis by simp
  qed
qed

lemma domain_re_shape:
  assumes "w \<in> lang domain_re"
  shows "\<exists>pre c l1 l2 rest. w = pre @ [c, CHR ''.'', l1, l2] @ rest \<and>
           label_char c \<and> is_letter l1 \<and> is_letter l2"
proof -
  let ?g = "Then (some (Class label_char)) (lit ''.'')"
  from assms have "w \<in> lang (Then (some ?g) (at_least_two (Class is_letter)))"
    by (simp only: domain_re_def)
  then obtain x y where xy: "w = x @ y" "x \<in> lang (some ?g)"
      "y \<in> lang (at_least_two (Class is_letter))"
    by (rule lang_ThenE)
  from xy(2) have "x \<in> lang (Then ?g (Many ?g))" by (simp only: some_def)
  then obtain x1 x2 where x: "x = x1 @ x2" "x1 \<in> lang ?g" "x2 \<in> lang (Many ?g)"
    by (rule lang_ThenE)
  from x(3) have x2: "x2 \<in> star (lang ?g)" by (simp only: lang.simps)
  have "\<exists>pre c. x = pre @ [c, CHR ''.''] \<and> label_char c"
  proof (cases "x2 = []")
    case True
    with label_group_ends[OF x(2)] x(1) show ?thesis by simp
  next
    case False
    with star_label_groups_end[OF x2] have "\<exists>pre c. x2 = pre @ [c, CHR ''.''] \<and> label_char c"
      by simp
    then have "\<exists>pre c. x1 @ x2 = pre @ [c, CHR ''.''] \<and> label_char c"
      by (rule ends_with_label_dot_append)
    with x(1) show ?thesis by simp
  qed
  then obtain pre c where pre: "x = pre @ [c, CHR ''.'']" "label_char c" by blast
  from xy(3) obtain l1 l2 rest where y: "y = [l1] @ [l2] @ rest" "is_letter l1" "is_letter l2"
    by (auto simp: at_least_two_def)
  have "w = pre @ [c, CHR ''.'', l1, l2] @ rest" using xy(1) pre(1) y(1) by simp
  with pre(2) y(2,3) show ?thesis by blast
qed

lemma domain_re_window:
  assumes "label_char c" "is_letter l1" "is_letter l2"
  shows "[c, CHR ''.'', l1, l2] \<in> lang domain_re"
proof -
  have "matches domain_re [c, CHR ''.'', l1, l2]"
    using assms by (simp add: matches_def domain_re_def some_def at_least_two_def)
  then show ?thesis by (simp add: matches_lang)
qed

lemma domain_window_iff:
  "domain_window s \<longleftrightarrow>
     (\<exists>pre c l1 l2 rest. s = pre @ [c, CHR ''.'', l1, l2] @ rest \<and>
        label_char c \<and> is_letter l1 \<and> is_letter l2)"
proof (induction s rule: domain_window.induct)
  case (1 c d l1 l2 rest)
  show ?case
  proof
    assume "domain_window (c # d # l1 # l2 # rest)"
    then consider "label_char c" "d = CHR ''.''" "is_letter l1" "is_letter l2"
      | "domain_window (d # l1 # l2 # rest)" by auto
    then show "\<exists>pre c' m1 m2 rest'. c # d # l1 # l2 # rest = pre @ [c', CHR ''.'', m1, m2] @ rest' \<and>
        label_char c' \<and> is_letter m1 \<and> is_letter m2"
    proof cases
      case 1
      then have "c # d # l1 # l2 # rest = [] @ [c, CHR ''.'', l1, l2] @ rest" by simp
      with 1 show ?thesis by blast
    next
      case 2
      then obtain pre c' m1 m2 rest' where
        "d # l1 # l2 # rest = pre @ [c', CHR ''.'', m1, m2] @ rest'"
        "label_char c'" "is_letter m1" "is_letter m2"
        using "1.IH" by blast
      then have "c # d # l1 # l2 # rest = (c # pre) @ [c', CHR ''.'', m1, m2] @ rest'" by simp
      with \<open>label_char c'\<close> \<open>is_letter m1\<close> \<open>is_letter m2\<close> show ?thesis by blast
    qed
  next
    assume "\<exists>pre c' m1 m2 rest'. c # d # l1 # l2 # rest = pre @ [c', CHR ''.'', m1, m2] @ rest' \<and>
        label_char c' \<and> is_letter m1 \<and> is_letter m2"
    then obtain pre c' m1 m2 rest' where
      e: "c # d # l1 # l2 # rest = pre @ [c', CHR ''.'', m1, m2] @ rest'"
      and p: "label_char c'" "is_letter m1" "is_letter m2" by blast
    show "domain_window (c # d # l1 # l2 # rest)"
    proof (cases pre)
      case Nil
      with e p show ?thesis by simp
    next
      case (Cons a pre')
      with e have "d # l1 # l2 # rest = pre' @ [c', CHR ''.'', m1, m2] @ rest'" by simp
      with p have "domain_window (d # l1 # l2 # rest)" using "1.IH" by blast
      then show ?thesis by simp
    qed
  qed
qed simp_all

lemma found_domain: "found domain_re s \<longleftrightarrow> domain_window s"
proof
  assume "found domain_re s"
  then obtain u w v where s: "s = u @ w @ v" "w \<in> lang domain_re" by (auto simp: found_iff)
  from domain_re_shape[OF s(2)] obtain pre c l1 l2 rest where
    w: "w = pre @ [c, CHR ''.'', l1, l2] @ rest" "label_char c" "is_letter l1" "is_letter l2"
    by blast
  have "s = (u @ pre) @ [c, CHR ''.'', l1, l2] @ (rest @ v)" using s(1) w(1) by simp
  with w(2,3,4) show "domain_window s" unfolding domain_window_iff by blast
next
  assume "domain_window s"
  then obtain pre c l1 l2 rest where
    "s = pre @ [c, CHR ''.'', l1, l2] @ rest" "label_char c" "is_letter l1" "is_letter l2"
    unfolding domain_window_iff by blast
  then show "found domain_re s"
    using domain_re_window[of c l1 l2] unfolding found_iff by blast
qed

lemma isUrl_iff:
  "isUrl s \<longleftrightarrow> startsWith s ''http://'' \<or> startsWith s ''https://'' \<or>
     includes_str s ''localhost'' \<or> domain_window s"
  by (simp add: isUrl_def found_scheme found_localhost found_domain)

lemma map_of_load:
  "ident \<in> set (map fst m) \<Longrightarrow>
   \<exists>v. map_of (map (\<lambda>(k, v). if k = ident then (k, v\<lparr>view_load := Some request\<rparr>) else (k, v)) m) ident
          = Some v \<and> view_load v = Some request"
  by (induction m) auto

lemma requested_loadURL:
  assumes "map_has (tabs s) ident"
  shows "requested ident (loadURL ident request s) = Some request"
proof -
  from assms have "ident \<in> set (map fst (tabs s))" by (simp add: map_has_def)
  from map_of_load[OF this, of request] show ?thesis
    by (auto simp: requested_def loadURL_def)
qed

lemma navigate_active:
  assumes "activeTabId s = Some active" "active \<noteq> []" "map_has (tabs s) active" "target \<noteq> []"
  shows "navigate_from_newtab (Some target) s =
     (if isUrl target then
        loadURL active
          (LoadURL (if \<not> startsWith target ''http://'' \<and> \<not> startsWith target ''https://''
                    then ''https://'' @ target else target)) s
      else
        (case getSetting ''searchEngine'' (database_handle s) of
           (Inl e, db1) \<Rightarrow> s\<lparr>database_handle := db1\<rparr>
         | (Inr setting, db1) \<Rightarrow>
             loadURL active (search_request target setting) (s\<lparr>database_handle := db1\<rparr>)))"
proof -
  from map_has_map_of[OF assms(3)] obtain v where "map_of (tabs s) active = Some v" ..
  with assms(1,2,4) show ?thesis
    by (simp add: navigate_from_newtab_def or_null_def)
qed

lemma found_at_start_found: "found_at_start r s \<Longrightarrow> found r s"
proof -
  assume "found_at_start r s"
  then obtain w v where "s = w @ v" "w \<in> lang r" unfolding found_at_start_iff by blast
  then have "s = [] @ w @ v \<and> w \<in> lang r" by simp
  then show ?thesis unfolding found_iff by blast
qed

lemma getSetting_initialised:
  "getSetting key (Some d) =
     (Inr (if fault_after d = Some 0 then None else map_of (settings d) key),
      Some (snd (statement d)))"
proof (cases "fault_after d")
  case None
  then show ?thesis by (simp add: getSetting_def with_db_def statement_def)
next
  case (Some k)
  then show ?thesis by (cases k) (simp_all add: getSetting_def with_db_def statement_def)
qed

lemma search_request_brave:
  "search_request target (Some ''brave'') =
     LoadURL (''https://search.brave.com/search?q='' @ encodeURIComponent target)"
  by (simp add: search_request_def searchEngines_def or_null_def)

lemma search_request_duckduckgo:
  "search_request target (Some ''duckduckgo'') =
     LoadURL (''https://duckduckgo.com/?q='' @ encodeURIComponent target)"
  by (simp add: search_request_def searchEngines_def or_null_def)

lemma search_request_google:
  assumes "\<forall>e. setting = Some e \<longrightarrow> e \<noteq> ''brave'' \<and> e \<noteq> ''duckduckgo'' \<and> e \<notin> set object_prototype_keys"
  shows "search_request target setting =
     LoadURL (''https://www.google.com/search?q='' @ encodeURIComponent target)"
proof (cases setting)
  case None
  then show ?thesis
    by (simp add: search_request_def searchEngines_def or_null_def google_search_def)
next
  case (Some e)
  with assms have e: "e \<noteq> ''brave''" "e \<noteq> ''duckduckgo''" "e \<notin> set object_prototype_keys" by simp_all
  show ?thesis
  proof (cases "e = []")
    case True
    with Some show ?thesis
      by (simp add: search_request_def searchEngines_def or_null_def google_search_def)
  next
    case False
    with Some e show ?thesis
      by (simp add: search_request_def searchEngines_def or_null_def google_search_def)
  qed
qed

lemma navigate_nothing:
  assumes "activeTabId s = None \<or> targetUrl = None \<or> targetUrl = Some [] \<or>
   (\<exists>a. activeTabId s = Some a \<and> \<not> map_has (tabs s) a)"
  shows "navigate_from_newtab targetUrl s = s"
proof (cases "or_null (activeTabId s)")
  case None
  then show ?thesis by (simp add: navigate_from_newtab_def)
next
  case (Some active)
  then have act: "activeTabId s = Some active" by (simp add: or_null_def split: option.splits if_splits)
  show ?thesis
  proof (cases "or_null targetUrl")
    case None
    with Some show ?thesis by (simp add: navigate_from_newtab_def)
  next
    case tgt: (Some target)
    then have "targetUrl \<noteq> None" "targetUrl \<noteq> Some []"
      by (auto simp: or_null_def split: option.splits)
    with assms act have "\<not> map_has (tabs s) active" by simp
    then have "map_of (tabs s) active = None" by (simp add: map_has_def map_of_eq_None_iff)
    with Some tgt show ?thesis by (simp add: navigate_from_newtab_def)
  qed
qed

text \<open>
  Claim C9 (amended). Let the \<open>url\<close> parameter be a non-empty string and let a tab with a view
  be active. If the string begins with \<open>http://\<close> or \<open>https://\<close>, the view is asked to load
  it as it is. If it does not, and it begins with \<open>localhost\<close> or with a match of the domain
  pattern, the view is asked to load \<open>https://\<close> followed by the string. If it does not begin
  with \<open>http://\<close> or \<open>https://\<close>, contains \<open>localhost\<close> nowhere and contains no match of the
  domain pattern, then: without a database the state stays as it was, so nothing is loaded;
  with a database, \<open>getSetting('searchEngine')\<close> returns the stored value, or nothing when
  the read fails, and the view is asked to load the brave or the duckduckgo search address
  of the encoded string when the value names that engine, and the google search address
  when there is no value or the value is any other string that is not a property every
  object inherits. When no tab is active, the active id has no view, or the parameter is
  absent or empty, the state stays as it was.
\<close>

theorem navigate_from_newtab_heuristic:
  "(activeTabId s = Some active \<and> active \<noteq> [] \<and> map_has (tabs s) active \<and> target \<noteq> [] \<longrightarrow>
      (startsWith target ''http://'' \<or> startsWith target ''https://'' \<longrightarrow>
         requested active (navigate_from_newtab (Some target) s) = Some (LoadURL target)) \<and>
      (\<not> startsWith target ''http://'' \<and> \<not> startsWith target ''https://'' \<and>
       (startsWith target ''localhost'' \<or> found_at_start domain_re target) \<longrightarrow>
         requested active (navigate_from_newtab (Some target) s) =
           Some (LoadURL (''https://'' @ target))) \<and>
      (\<not> startsWith target ''http://'' \<and> \<not> startsWith target ''https://'' \<and>
       \<not> includes_str target ''localhost'' \<and> \<not> found domain_re target \<longrightarrow>
         (database_handle s = None \<longrightarrow> navigate_from_newtab (Some target) s = s) \<and>
         (\<forall>d. database_handle s = Some d \<longrightarrow>
            (\<exists>setting.
               fst (getSetting ''searchEngine'' (Some d)) = Inr setting \<and>
               setting = (if fault_after d = Some 0 then None else map_of (settings d) ''searchEngine'') \<and>
               (setting = Some ''brave'' \<longrightarrow>
                  requested active (navigate_from_newtab (Some target) s) =
                    Some (LoadURL (''https://search.brave.com/search?q='' @ encodeURIComponent target))) \<and>
               (setting = Some ''duckduckgo'' \<longrightarrow>
                  requested active (navigate_from_newtab (Some target) s) =
                    Some (LoadURL (''https://duckduckgo.com/?q='' @ encodeURIComponent target))) \<and>
               ((\<forall>e. setting = Some e \<longrightarrow>
                    e \<noteq> ''brave'' \<and> e \<noteq> ''duckduckgo'' \<and> e \<notin> set object_prototype_keys) \<longrightarrow>
                  requested active (navigate_from_newtab (Some target) s) =
                    Some (LoadURL (''https://www.google.com/search?q='' @ encodeURIComponent target))))))) \<and>
   (activeTabId s = None \<or> targetUrl = None \<or> targetUrl = Some [] \<or>
    (\<exists>a. activeTabId s = Some a \<and> \<not> map_has (tabs s) a) \<longrightarrow>
      navigate_from_newtab targetUrl s = s)"
proof (intro conjI impI allI)
  assume "activeTabId s = None \<or> targetUrl = None \<or> targetUrl = Some [] \<or>
    (\<exists>a. activeTabId s = Some a \<and> \<not> map_has (tabs s) a)"
  then show "navigate_from_newtab targetUrl s = s" by (rule navigate_nothing)
next
  assume a: "activeTabId s = Some active \<and> active \<noteq> [] \<and> map_has (tabs s) active \<and> target \<noteq> []"
  then have has: "map_has (tabs s) active" by simp
  from a have a1: "activeTabId s = Some active" and a2: "active \<noteq> []" and a4: "target \<noteq> []"
    by simp_all
  note nav = navigate_active[OF a1 a2 has a4]
  {
    assume h: "startsWith target ''http://'' \<or> startsWith target ''https://''"
    then have "isUrl target" by (auto simp: isUrl_iff)
    with h show "requested active (navigate_from_newtab (Some target) s) = Some (LoadURL target)"
      using has by (auto simp: nav requested_loadURL)
  }
  {
    assume h: "\<not> startsWith target ''http://'' \<and> \<not> startsWith target ''https://'' \<and>
       (startsWith target ''localhost'' \<or> found_at_start domain_re target)"
    have "startsWith target ''localhost'' \<Longrightarrow> includes_str target ''localhost''"
    proof -
      assume "startsWith target ''localhost''"
      then obtain v where "target = [] @ ''localhost'' @ v" by (auto simp: startsWith_iff)
      then show ?thesis unfolding includes_str_iff by blast
    qed
    with h have "isUrl target"
      using found_at_start_found[of domain_re target] by (auto simp: isUrl_iff found_domain)
    with h show "requested active (navigate_from_newtab (Some target) s) =
           Some (LoadURL (''https://'' @ target))"
      using has by (simp add: nav requested_loadURL)
  }
  assume h: "\<not> startsWith target ''http://'' \<and> \<not> startsWith target ''https://'' \<and>
       \<not> includes_str target ''localhost'' \<and> \<not> found domain_re target"
  then have no: "\<not> isUrl target" by (simp add: isUrl_iff found_domain)
  {
    assume "database_handle s = None"
    then show "navigate_from_newtab (Some target) s = s"
      by (simp add: nav no getSetting_def with_db_def)
  }
  fix d assume d: "database_handle s = Some d"
  define setting where "setting = (if fault_after d = Some 0 then None else map_of (settings d) ''searchEngine'')"
  have get: "getSetting ''searchEngine'' (Some d) = (Inr setting, Some (snd (statement d)))"
    by (simp add: getSetting_initialised setting_def)
  have has': "map_has (tabs (s\<lparr>database_handle := Some (snd (statement d))\<rparr>)) active" using has by simp
  have req: "requested active (navigate_from_newtab (Some target) s) = Some (search_request target setting)"
    using has' by (simp add: nav no d get requested_loadURL)
  have g1: "fst (getSetting ''searchEngine'' (Some d)) = Inr setting" by (simp add: get)
  have g2: "setting = (if fault_after d = Some 0 then None else map_of (settings d) ''searchEngine'')"
    by (rule setting_def)
  have g3: "setting = Some ''brave'' \<longrightarrow>
           requested active (navigate_from_newtab (Some target) s) =
             Some (LoadURL (''https://search.brave.com/search?q='' @ encodeURIComponent target))"
    by (simp add: req search_request_brave)
  have g4: "setting = Some ''duckduckgo'' \<longrightarrow>
           requested active (navigate_from_newtab (Some target) s) =
             Some (LoadURL (''https://duckduckgo.com/?q='' @ encodeURIComponent target))"
    by (simp add: req search_request_duckduckgo)
  have g5: "(\<forall>e. setting = Some e \<longrightarrow>
             e \<noteq> ''brave'' \<and> e \<noteq> ''duckduckgo'' \<and> e \<notin> set object_prototype_keys) \<longrightarrow>
           requested active (navigate_from_newtab (Some target) s) =
             Some (LoadURL (''https://www.google.com/search?q='' @ encodeURIComponent target))"
    using search_request_google[of setting target] by (simp only: req) blast
  from g1 g2 g3 g4 g5
  show "\<exists>setting.
               fst (getSetting ''searchEngine'' (Some d)) = Inr setting \<and>
               setting = (if fault_after d = Some 0 then None else map_of (settings d) ''searchEngine'') \<and>
               (setting = Some ''brave'' \<longrightarrow>
                  requested active (navigate_from_newtab (Some target) s) =
                    Some (LoadURL (''https://search.brave.com/search?q='' @ encodeURIComponent target))) \<and>
               (setting = Some ''duckduckgo'' \<longrightarrow>
                  requested active (navigate_from_newtab (Some target) s) =
                    Some (LoadURL (''https://duckduckgo.com/?q='' @ encodeURIComponent target))) \<and>
               ((\<forall>e. setting = Some e \<longrightarrow>
                    e \<noteq> ''brave'' \<and> e \<noteq> ''duckduckgo'' \<and> e \<notin> set object_prototype_keys) \<longrightarrow>
                  requested active (navigate_from_newtab (Some target) s) =
                    Some (LoadURL (''https://www.google.com/search?q='' @ encodeURIComponent target)))"
    by blast
qed

lemma newtab_state_eq:
  "newtab_state =
     \<lparr>tabs = [(''t1'', \<lparr>view_url = [], view_load = Some (LoadURL ''hera://new-tab'')\<rparr>)],
      tabInfo = [(''t1'', default_tab_info)],
      tabFindBarStates = [], activeTabId = Some ''t1'',
      sent = [TabSwitched ''t1'' [],
              TabCreated ''t1'' ''Nova Aba'' ''hera://new-tab'' (Some ''hera://HeraBrowser256x256.png'')],
      immediates = [SendFindRestoreState],
      database_handle = initDatabase None\<rparr>"
  by (simp add: newtab_state_def reached_def run_commands_def createNewTab_def initial_state_def
      Let_def or_null_def switchToTab_def map_has_def map_set_def initialTitle_def
      initialFavicon_def startsWith_def default_tab_info_def loadURL_def)

text \<open>
  \<open>my localhost\<close> begins with neither scheme nor with \<open>localhost\<close> and has no substring that
  matches the domain pattern, and the view is asked to load \<open>https://my localhost\<close>; for
  the empty string the view is asked to load nothing.
\<close>

theorem navigate_heuristic_counterexample:
  "\<not> startsWith ''my localhost'' ''http://'' \<and> \<not> startsWith ''my localhost'' ''https://'' \<and>
   \<not> startsWith ''my localhost'' ''localhost'' \<and> \<not> found domain_re ''my localhost'' \<and>
   requested ''t1'' (navigate_from_newtab (Some ''my localhost'') newtab_state) =
     Some (LoadURL ''https://my localhost'') \<and>
   requested ''t1'' newtab_state = Some (LoadURL ''hera://new-tab'') \<and>
   navigate_from_newtab (Some []) newtab_state = newtab_state"
proof -
  have a: "\<not> startsWith ''my localhost'' ''http://'' \<and> \<not> startsWith ''my localhost'' ''https://'' \<and>
   \<not> startsWith ''my localhost'' ''localhost''"
    by (simp add: startsWith_def)
  have b: "\<not> found domain_re ''my localhost''"
    by (simp add: found_domain label_char_def is_letter_def is_digit_def code_def)
  have c: "isUrl ''my localhost''"
    by (simp add: isUrl_iff startsWith_def)
  have d: "requested ''t1'' (navigate_from_newtab (Some ''my localhost'') newtab_state) =
     Some (LoadURL ''https://my localhost'')"
    using a c
    by (simp add: newtab_state_eq navigate_from_newtab_def or_null_def requested_def loadURL_def)
  have e: "requested ''t1'' newtab_state = Some (LoadURL ''hera://new-tab'')"
    by (simp add: newtab_state_eq requested_def)
  have f: "navigate_from_newtab (Some []) newtab_state = newtab_state"
    by (simp add: navigate_from_newtab_def or_null_def split: option.splits)
  from a b d e f show ?thesis by blast
qed

text \<open>
  The second and third alternatives of the expression are not under its anchor:
  \<open>what is a.bc\<close> begins with no match of the domain pattern and only contains one, and the
  view is asked to load \<open>https://what is a.bc\<close>.
\<close>

lemma unanchored_domain_is_navigated:
  "\<not> found_at_start domain_re ''what is a.bc'' \<and> found domain_re ''what is a.bc'' \<and>
   requested ''t1'' (navigate_from_newtab (Some ''what is a.bc'') newtab_state) =
     Some (LoadURL ''https://what is a.bc'')"
proof -
  have a: "\<not> found_at_start domain_re ''what is a.bc''"
    by (simp add: found_at_start_def matches_def domain_re_def some_def at_least_two_def
        label_char_def is_letter_def is_digit_def code_def)
  have b: "found domain_re ''what is a.bc''"
    by (simp add: found_domain label_char_def is_letter_def is_digit_def code_def)
  then have c: "isUrl ''what is a.bc''" by (simp add: isUrl_def)
  have d: "requested ''t1'' (navigate_from_newtab (Some ''what is a.bc'') newtab_state) =
     Some (LoadURL ''https://what is a.bc'')"
    using c
    by (simp add: newtab_state_eq navigate_from_newtab_def or_null_def requested_def loadURL_def
        startsWith_def)
  from a b d show ?thesis by blast
qed

lemma brave_state_eq:
  "brave_state =
     \<lparr>tabs = [(''t1'', \<lparr>view_url = [], view_load = Some (LoadURL ''hera://new-tab'')\<rparr>)],
      tabInfo = [(''t1'', default_tab_info)],
      tabFindBarStates = [], activeTabId = Some ''t1'',
      sent = [TabSwitched ''t1'' [],
              TabCreated ''t1'' ''Nova Aba'' ''hera://new-tab'' (Some ''hera://HeraBrowser256x256.png'')],
      immediates = [SendFindRestoreState],
      database_handle = snd (setSetting ''searchEngine'' ''brave'' (initDatabase None))\<rparr>"
  by (simp add: brave_state_def reached_def run_commands_def createNewTab_def initial_state_def
      Let_def or_null_def switchToTab_def map_has_def map_set_def initialTitle_def
      initialFavicon_def startsWith_def default_tab_info_def loadURL_def)

lemma offline_state_eq:
  "offline_state =
     \<lparr>tabs = [(''t1'', \<lparr>view_url = [], view_load = Some (LoadURL ''hera://new-tab'')\<rparr>)],
      tabInfo = [(''t1'', default_tab_info)],
      tabFindBarStates = [], activeTabId = Some ''t1'',
      sent = [TabSwitched ''t1'' [],
              TabCreated ''t1'' ''Nova Aba'' ''hera://new-tab'' (Some ''hera://HeraBrowser256x256.png'')],
      immediates = [SendFindRestoreState],
      database_handle = None\<rparr>"
  by (simp add: offline_state_def reached_def run_commands_def createNewTab_def initial_state_def
      Let_def or_null_def switchToTab_def map_has_def map_set_def initialTitle_def
      initialFavicon_def startsWith_def default_tab_info_def loadURL_def)

theorem navigate_from_newtab_heuristic_witness:
  "requested ''t1'' (navigate_from_newtab (Some ''https://a.org/'') newtab_state) =
     Some (LoadURL ''https://a.org/'') \<and>
   requested ''t1'' (navigate_from_newtab (Some ''localhost:3000'') newtab_state) =
     Some (LoadURL ''https://localhost:3000'') \<and>
   requested ''t1'' (navigate_from_newtab (Some ''example.com/x'') newtab_state) =
     Some (LoadURL ''https://example.com/x'') \<and>
   requested ''t1'' (navigate_from_newtab (Some ''hello world'') newtab_state) =
     Some (LoadURL ''https://www.google.com/search?q=hello%20world'') \<and>
   requested ''t1'' (navigate_from_newtab (Some ''hello world'') brave_state) =
     Some (LoadURL ''https://search.brave.com/search?q=hello%20world'') \<and>
   navigate_from_newtab (Some ''hello world'') offline_state = offline_state \<and>
   navigate_from_newtab (Some ''hello world'') (initial_state (initDatabase None)) =
     initial_state (initDatabase None)"
proof -
  have n: "activeTabId newtab_state = Some ''t1'' \<and> ''t1'' \<noteq> [] \<and> map_has (tabs newtab_state) ''t1''"
    by (simp add: newtab_state_eq map_has_def)
  have b: "activeTabId brave_state = Some ''t1'' \<and> ''t1'' \<noteq> [] \<and> map_has (tabs brave_state) ''t1''"
    by (simp add: brave_state_eq map_has_def)
  have f: "activeTabId offline_state = Some ''t1'' \<and> ''t1'' \<noteq> [] \<and> map_has (tabs offline_state) ''t1''"
    by (simp add: offline_state_eq map_has_def)
  have ndb: "database_handle newtab_state = Some \<lparr>history = [], history_seq = 0, open_tabs = [],
       bookmarks = [], settings = [], downloads = [], fault_after = None\<rparr>"
    by (simp add: newtab_state_eq initDatabase_def)
  have bdb: "database_handle brave_state = Some \<lparr>history = [], history_seq = 0, open_tabs = [],
       bookmarks = [], settings = [(''searchEngine'', ''brave'')], downloads = [], fault_after = None\<rparr>"
    by (simp add: brave_state_eq initDatabase_def setSetting_def with_db_def statement_def
        upsert_setting_def)
  have fdb: "database_handle offline_state = None"
    by (simp add: offline_state_eq)
  have dom: "found_at_start domain_re ''example.com/x''"
    by (simp add: found_at_start_def matches_def domain_re_def some_def at_least_two_def
        label_char_def is_letter_def is_digit_def code_def)
  have free: "\<not> startsWith ''hello world'' ''http://'' \<and> \<not> startsWith ''hello world'' ''https://'' \<and>
      \<not> includes_str ''hello world'' ''localhost'' \<and> \<not> found domain_re ''hello world''"
    by (simp add: startsWith_def found_domain label_char_def is_letter_def is_digit_def code_def)
  have enc: "encodeURIComponent ''hello world'' = ''hello%20world''"
    by (simp add: encodeURIComponent_def encode_char_def unreserved_def percent_def hex_digit_def
        is_letter_def is_digit_def code_def)
  have keys: "''google'' \<notin> set object_prototype_keys"
    by (simp add: object_prototype_keys_def)
  have w1: "requested ''t1'' (navigate_from_newtab (Some ''https://a.org/'') newtab_state) =
     Some (LoadURL ''https://a.org/'')"
    using navigate_from_newtab_heuristic[of newtab_state "''t1''" "''https://a.org/''"] n
    by (simp add: startsWith_def)
  have w2: "requested ''t1'' (navigate_from_newtab (Some ''localhost:3000'') newtab_state) =
     Some (LoadURL ''https://localhost:3000'')"
    using navigate_from_newtab_heuristic[of newtab_state "''t1''" "''localhost:3000''"] n
    by (simp add: startsWith_def)
  have w3: "requested ''t1'' (navigate_from_newtab (Some ''example.com/x'') newtab_state) =
     Some (LoadURL ''https://example.com/x'')"
    using navigate_from_newtab_heuristic[of newtab_state "''t1''" "''example.com/x''"] n dom
    by (simp add: startsWith_def)
  have w4: "requested ''t1'' (navigate_from_newtab (Some ''hello world'') newtab_state) =
     Some (LoadURL ''https://www.google.com/search?q=hello%20world'')"
    using navigate_from_newtab_heuristic[of newtab_state "''t1''" "''hello world''"] n free
    by (simp add: ndb enc)
  have w5: "requested ''t1'' (navigate_from_newtab (Some ''hello world'') brave_state) =
     Some (LoadURL ''https://search.brave.com/search?q=hello%20world'')"
    using navigate_from_newtab_heuristic[of brave_state "''t1''" "''hello world''"] b free
    by (simp add: bdb enc)
  have w6: "navigate_from_newtab (Some ''hello world'') offline_state = offline_state"
    using navigate_from_newtab_heuristic[of offline_state "''t1''" "''hello world''"] f free
    by (simp add: fdb)
  have w7: "navigate_from_newtab (Some ''hello world'') (initial_state (initDatabase None)) =
     initial_state (initDatabase None)"
    using navigate_from_newtab_heuristic[of "initial_state (initDatabase None)" _ _ "Some ''hello world''"]
    by (simp add: initial_state_def)
  from w1 w2 w3 w4 w5 w6 w7 show ?thesis by blast
qed

end
